theory Spec2Isabelle
  imports Complex_Main
begin

section \<open>Birdy's Seed Quest: the grid engine and the session controller\<close>

text \<open>
  The game has two components. \<^verbatim>\<open>GameBoard\<close> (the grid engine) owns the bird's cell, the
  seed list and the id counter, and reacts to key presses. \<^verbatim>\<open>App\<close> (the session controller)
  owns the game state, score, coins, total points and difficulty, and renders the board only
  while playing.

  React state becomes explicit state passing: a component's \<^verbatim>\<open>useState\<close>/\<^verbatim>\<open>useRef\<close> cells are the
  fields of a record, and every event is handled to completion (state update, render, effects)
  before the next one, as happens for the discrete events (key presses, clicks) the game uses.
  State updater functions are taken to run once per update.

  \<^verbatim>\<open>Math.random()\<close> becomes an explicit source: a stream \<open>rnd :: nat \<Rightarrow> real\<close> of draws together
  with the index of the next unread draw, which every consumer returns advanced. Draws are exact
  reals; rounding of the floating-point product is not modelled.

  \<^verbatim>\<open>BOARD_SIZE\<close> is imported by the source from a constants module; it is the parameter \<open>N\<close> of
  every definition that uses it.
\<close>

subsection \<open>types.ts\<close>

datatype GameState = Ready | Playing | GameOver | ModeSelection

datatype Difficulty = easy | normal | hard

record Position =
  x :: int
  y :: int

datatype SeedType = Good | Hard | Coin

record Seed =
  id_seed :: nat
  position :: Position
  type_seed :: SeedType

subsection \<open>GameBoard: settings and random placement\<close>

record settings =
  initialSeeds :: nat
  hardSeedChance :: real
  coinChance :: real

fun difficultySettings :: "Difficulty \<Rightarrow> settings" where
  "difficultySettings easy = \<lparr>initialSeeds = 30, hardSeedChance = 1 / 10, coinChance = 15 / 100\<rparr>"
| "difficultySettings normal = \<lparr>initialSeeds = 40, hardSeedChance = 2 / 10, coinChance = 1 / 10\<rparr>"
| "difficultySettings hard = \<lparr>initialSeeds = 50, hardSeedChance = 35 / 100, coinChance = 5 / 100\<rparr>"

text \<open>\<^verbatim>\<open>Math.floor(Math.random() * BOARD_SIZE)\<close> for the draw \<open>u\<close>.\<close>

definition random_cell :: "int \<Rightarrow> real \<Rightarrow> int" where
  "random_cell N u = \<lfloor>u * of_int N\<rfloor>"

text \<open>
  \<^verbatim>\<open>getRandomPosition\<close>: a do-while loop that draws a cell (two draws, x then y) and repeats
  while the cell is in \<open>existingPositions\<close>. The loop has no other exit, so the model is a
  partial function: \<open>None\<close> is the loop that never ends. The result carries the index of the
  next unread draw.
\<close>

partial_function (option) getRandomPosition ::
  "int \<Rightarrow> (nat \<Rightarrow> real) \<Rightarrow> nat \<Rightarrow> Position list \<Rightarrow> (Position \<times> nat) option" where
  "getRandomPosition N rnd r existingPositions =
     (if list_ex (\<lambda>p. x p = random_cell N (rnd r) \<and> y p = random_cell N (rnd (r + 1)))
           existingPositions
      then getRandomPosition N rnd (r + 2) existingPositions
      else Some (\<lparr>x = random_cell N (rnd r), y = random_cell N (rnd (r + 1))\<rparr>, r + 2))"

declare getRandomPosition.simps [code]

text \<open>\<^verbatim>\<open>getNewSeedType\<close> for the draw \<open>rand\<close>.\<close>

definition getNewSeedType :: "settings \<Rightarrow> real \<Rightarrow> SeedType" where
  "getNewSeedType st rand =
     (if rand < hardSeedChance st then Hard
      else if rand < hardSeedChance st + coinChance st then Coin
      else Good)"

subsection \<open>GameBoard: state and reset\<close>

record GameBoard =
  birdPosition :: Position
  seeds :: "Seed list"
  seedIdCounter :: nat

text \<open>
  The \<^verbatim>\<open>for\<close> loop of \<^verbatim>\<open>resetGame\<close>, from loop index \<open>i\<close>: each round draws a position, then
  a seed type.
\<close>

function resetLoop ::
  "int \<Rightarrow> (nat \<Rightarrow> real) \<Rightarrow> settings \<Rightarrow> nat \<Rightarrow> Seed list \<Rightarrow> Position list \<Rightarrow> nat
     \<Rightarrow> (Seed list \<times> nat) option" where
  "resetLoop N rnd st i newSeeds existingPositions r =
     (if i < initialSeeds st then
        (case getRandomPosition N rnd r existingPositions of
           None \<Rightarrow> None
         | Some (pos, r1) \<Rightarrow>
             resetLoop N rnd st (i + 1)
               (newSeeds @ [\<lparr>id_seed = i, position = pos, type_seed = getNewSeedType st (rnd r1)\<rparr>])
               (existingPositions @ [pos]) (r1 + 1))
      else Some (newSeeds, r))"
  by pat_completeness auto
termination
  by (relation "measure (\<lambda>(N, rnd, st, i, newSeeds, existingPositions, r). initialSeeds st - i)")
    auto

declare resetLoop.simps [simp del]

definition resetGame ::
  "int \<Rightarrow> (nat \<Rightarrow> real) \<Rightarrow> settings \<Rightarrow> nat \<Rightarrow> (GameBoard \<times> nat) option" where
  "resetGame N rnd st r =
     (let initialBirdPos = \<lparr>x = N div 2, y = N div 2\<rparr> in
      case resetLoop N rnd st 0 [] [initialBirdPos] r of
        None \<Rightarrow> None
      | Some (newSeeds, r') \<Rightarrow>
          Some (\<lparr>birdPosition = initialBirdPos, seeds = newSeeds,
                 seedIdCounter = initialSeeds st\<rparr>, r'))"

subsection \<open>GameBoard: key handling\<close>

text \<open>The three callbacks the board receives from the controller; a call is a signal.\<close>

datatype signal = onGameOver | onScore | onCoinCollect

text \<open>\<^verbatim>\<open>Array.prototype.findIndex\<close>; \<open>None\<close> is the result \<^verbatim>\<open>-1\<close>.\<close>

fun findIndex :: "('a \<Rightarrow> bool) \<Rightarrow> 'a list \<Rightarrow> nat option" where
  "findIndex P [] = None"
| "findIndex P (a # as) = (if P a then Some 0 else map_option Suc (findIndex P as))"

text \<open>\<^verbatim>\<open>Array.prototype.filter\<close> with a callback that also reads the index, from index \<open>i\<close>.\<close>

fun filter_index :: "('a \<Rightarrow> nat \<Rightarrow> bool) \<Rightarrow> nat \<Rightarrow> 'a list \<Rightarrow> 'a list" where
  "filter_index P i [] = []"
| "filter_index P i (a # as) =
     (if P a i then a # filter_index P (Suc i) as else filter_index P (Suc i) as)"

text \<open>The \<^verbatim>\<open>switch (e.key)\<close> of the updater; \<open>None\<close> is the default branch.\<close>

definition keySwitch :: "int \<Rightarrow> string \<Rightarrow> Position \<Rightarrow> Position option" where
  "keySwitch N key prevPos =
     (if key = ''ArrowUp'' then Some (prevPos\<lparr>y := max 0 (y prevPos - 1)\<rparr>)
      else if key = ''ArrowDown'' then Some (prevPos\<lparr>y := min (N - 1) (y prevPos + 1)\<rparr>)
      else if key = ''ArrowLeft'' then Some (prevPos\<lparr>x := max 0 (x prevPos - 1)\<rparr>)
      else if key = ''ArrowRight'' then Some (prevPos\<lparr>x := min (N - 1) (x prevPos + 1)\<rparr>)
      else None)"

text \<open>
  \<^verbatim>\<open>handleKeyDown\<close>: the new board, the callbacks called (in order) and the next unread draw.
  \<open>None\<close> is a placement loop that never ends.
\<close>

definition handleKeyDown ::
  "int \<Rightarrow> (nat \<Rightarrow> real) \<Rightarrow> settings \<Rightarrow> string \<Rightarrow> GameBoard \<Rightarrow> nat
     \<Rightarrow> (GameBoard \<times> signal list \<times> nat) option" where
  "handleKeyDown N rnd st key b r =
     (case keySwitch N key (birdPosition b) of
        None \<Rightarrow> Some (b, [], r)
      | Some newPos \<Rightarrow>
         (case findIndex (\<lambda>seed. x (position seed) = x newPos \<and> y (position seed) = y newPos)
                 (seeds b) of
            None \<Rightarrow> Some (b\<lparr>birdPosition := newPos\<rparr>, [], r)
          | Some collidedSeedIndex \<Rightarrow>
              if type_seed (seeds b ! collidedSeedIndex) = Hard then Some (b, [onGameOver], r)
              else
                (case getRandomPosition N rnd r
                        (newPos # map position
                           (filter_index (\<lambda>_ index. index \<noteq> collidedSeedIndex) 0 (seeds b))) of
                   None \<Rightarrow> None
                 | Some (newSeedPosition, r1) \<Rightarrow>
                     Some (b\<lparr>birdPosition := newPos,
                              seeds := filter_index (\<lambda>_ index. index \<noteq> collidedSeedIndex) 0 (seeds b)
                                @ [\<lparr>id_seed = seedIdCounter b, position = newSeedPosition,
                                    type_seed = getNewSeedType st (rnd r1)\<rparr>],
                              seedIdCounter := seedIdCounter b + 1\<rparr>,
                           [if type_seed (seeds b ! collidedSeedIndex) = Coin
                            then onCoinCollect else onScore],
                           r1 + 1))))"

subsection \<open>The host's numbers and strings\<close>

text \<open>
  A string of the host is a sequence of UTF-16 code units; \<open>units\<close> gives the code units of an
  ASCII literal. A number of the host is an IEEE 754 binary64 value: not-a-number, an infinity,
  or a finite value, kept as the rational it denotes. The two zeros are kept as one value: the
  total never is the negative zero (\<^verbatim>\<open>-0 || 0\<close> is \<^verbatim>\<open>0\<close>, and a sum of a total and a score that
  is zero is the positive zero), and the conversions used here do not tell them apart otherwise.
\<close>

type_synonym jsstring = "int list"

definition units :: "string \<Rightarrow> jsstring" where
  "units s = map of_char s"

datatype jsnum = NaN | PosInf | NegInf | Fin rat

definition ipow :: "int \<Rightarrow> int \<Rightarrow> rat" where
  "ipow b k = (if 0 \<le> k then of_int (b ^ nat k) else 1 / of_int (b ^ nat (- k)))"

text \<open>
  The number of digits of \<open>a\<close> in base \<open>b\<close>, and the exponent of a positive \<open>q\<close> in base \<open>b\<close>:
  the \<open>k\<close> with \<open>ipow b k \<le> q < ipow b (k + 1)\<close>.
\<close>

function ilen :: "int \<Rightarrow> int \<Rightarrow> int" where
  "ilen b a = (if 0 < a \<and> 1 < b then ilen b (a div b) + 1 else 0)"
  by pat_completeness auto
termination
  by (relation "measure (\<lambda>(b, a). nat a)") (auto intro!: int_div_less_self)

declare ilen.simps [simp del]

definition ilog :: "int \<Rightarrow> rat \<Rightarrow> int" where
  "ilog b q =
     (let k = ilen b (fst (quotient_of q)) - ilen b (snd (quotient_of q))
      in if ipow b k \<le> q then k else k - 1)"

definition round_half_even :: "rat \<Rightarrow> int" where
  "round_half_even q =
     (if q - of_int \<lfloor>q\<rfloor> < 1 / 2 then \<lfloor>q\<rfloor>
      else if 1 / 2 < q - of_int \<lfloor>q\<rfloor> then \<lfloor>q\<rfloor> + 1
      else if even \<lfloor>q\<rfloor> then \<lfloor>q\<rfloor> else \<lfloor>q\<rfloor> + 1)"

text \<open>
  The number value of a rational: the nearest binary64 value, ties to the even significand.
  The values around \<open>q\<close> are the multiples of \<open>ipow 2 (e - 52)\<close> for the binary exponent \<open>e\<close>
  of \<open>q\<close>, and of \<open>ipow 2 (- 1074)\<close> below the normal range; a result of \<open>ipow 2 1024\<close> or more
  is an infinity.
\<close>

definition round64 :: "rat \<Rightarrow> jsnum" where
  "round64 q =
     (if q = 0 then Fin 0
      else
        let u = ipow 2 (max (ilog 2 \<bar>q\<bar>) (- 1022) - 52);
            m = of_int (round_half_even (\<bar>q\<bar> / u)) * u
        in if ipow 2 1024 \<le> m then (if q < 0 then NegInf else PosInf)
           else Fin (if q < 0 then - m else m))"

text \<open>The operator \<^verbatim>\<open>+\<close> on two numbers.\<close>

fun js_add :: "jsnum \<Rightarrow> jsnum \<Rightarrow> jsnum" where
  "js_add NaN b = NaN"
| "js_add a NaN = NaN"
| "js_add PosInf NegInf = NaN"
| "js_add NegInf PosInf = NaN"
| "js_add PosInf b = PosInf"
| "js_add a PosInf = PosInf"
| "js_add NegInf b = NegInf"
| "js_add a NegInf = NegInf"
| "js_add (Fin a) (Fin b) = round64 (a + b)"

fun js_negate :: "jsnum \<Rightarrow> jsnum" where
  "js_negate NaN = NaN"
| "js_negate PosInf = NegInf"
| "js_negate NegInf = PosInf"
| "js_negate (Fin q) = Fin (- q)"

subsection \<open>The host's conversion of a string to a number\<close>

text \<open>
  \<^verbatim>\<open>Number(s)\<close> for a string: white space and line terminators are trimmed from both ends; the
  empty string is 0; a binary, octal or hexadecimal integer literal is its value; otherwise an
  optional sign is followed by \<^verbatim>\<open>Infinity\<close> or by decimal digits with an optional fraction and
  an optional exponent; anything else is \<open>NaN\<close>. The value is rounded to a number.
\<close>

definition isStrWhiteSpaceChar :: "int \<Rightarrow> bool" where
  "isStrWhiteSpaceChar c \<longleftrightarrow>
     c \<in> set [0x09, 0x0A, 0x0B, 0x0C, 0x0D, 0x20, 0xA0, 0x1680, 0x2028, 0x2029, 0x202F, 0x205F,
               0x3000, 0xFEFF]
     \<or> (0x2000 \<le> c \<and> c \<le> 0x200A)"

definition trimString :: "jsstring \<Rightarrow> jsstring" where
  "trimString s = rev (dropWhile isStrWhiteSpaceChar (rev (dropWhile isStrWhiteSpaceChar s)))"

definition digitValue :: "int \<Rightarrow> int option" where
  "digitValue c =
     (if 48 \<le> c \<and> c \<le> 57 then Some (c - 48)
      else if 97 \<le> c \<and> c \<le> 102 then Some (c - 87)
      else if 65 \<le> c \<and> c \<le> 70 then Some (c - 55)
      else None)"

definition isDigit :: "int \<Rightarrow> int \<Rightarrow> bool" where
  "isDigit radix c = (case digitValue c of None \<Rightarrow> False | Some d \<Rightarrow> d < radix)"

definition digitsMV :: "int \<Rightarrow> jsstring \<Rightarrow> int option" where
  "digitsMV radix cs =
     (if cs \<noteq> [] \<and> list_all (isDigit radix) cs
      then Some (foldl (\<lambda>a c. radix * a + (case digitValue c of None \<Rightarrow> 0 | Some d \<Rightarrow> d)) 0 cs)
      else None)"

definition nonDecimalIntegerLiteral :: "jsstring \<Rightarrow> int option" where
  "nonDecimalIntegerLiteral cs =
     (case cs of
        z # p # ds \<Rightarrow>
          if z \<noteq> 48 then None
          else if p = 120 \<or> p = 88 then digitsMV 16 ds
          else if p = 111 \<or> p = 79 then digitsMV 8 ds
          else if p = 98 \<or> p = 66 then digitsMV 2 ds
          else None
      | _ \<Rightarrow> None)"

definition exponentPart :: "jsstring \<Rightarrow> int option" where
  "exponentPart cs =
     (case cs of
        [] \<Rightarrow> Some 0
      | c # t \<Rightarrow>
          if c = 101 \<or> c = 69 then
            (case t of
               [] \<Rightarrow> None
             | s # ds \<Rightarrow>
                 if s = 43 then digitsMV 10 ds
                 else if s = 45 then map_option uminus (digitsMV 10 ds)
                 else digitsMV 10 t)
          else None)"

definition strUnsignedDecimalLiteral :: "jsstring \<Rightarrow> jsnum" where
  "strUnsignedDecimalLiteral cs =
     (if cs = units ''Infinity'' then PosInf
      else
        let ip = takeWhile (isDigit 10) cs;
            r1 = dropWhile (isDigit 10) cs;
            dot = (r1 \<noteq> [] \<and> hd r1 = 46);
            fp = (if dot then takeWhile (isDigit 10) (tl r1) else []);
            r2 = (if dot then dropWhile (isDigit 10) (tl r1) else r1)
        in if ip = [] \<and> fp = [] then NaN
           else (case exponentPart r2 of
                   None \<Rightarrow> NaN
                 | Some e \<Rightarrow>
                     (case digitsMV 10 (ip @ fp) of
                        None \<Rightarrow> NaN
                      | Some n \<Rightarrow> round64 (of_int n * ipow 10 (e - int (length fp))))))"

definition StringToNumber :: "jsstring \<Rightarrow> jsnum" where
  "StringToNumber s =
     (case trimString s of
        [] \<Rightarrow> Fin 0
      | c # ds \<Rightarrow>
          (case nonDecimalIntegerLiteral (c # ds) of
             Some n \<Rightarrow> round64 (of_int n)
           | None \<Rightarrow>
               if c = 45 then js_negate (strUnsignedDecimalLiteral ds)
               else if c = 43 then strUnsignedDecimalLiteral ds
               else strUnsignedDecimalLiteral (c # ds)))"

subsection \<open>The host's conversion of a number to a string\<close>

text \<open>
  \<^verbatim>\<open>String(v)\<close> for a number: for a positive finite \<open>v\<close>, the least count \<open>k\<close> of digits for
  which some \<open>s\<close> of \<open>k\<close> digits and some \<open>n\<close> give \<open>s * ipow 10 (n - k)\<close> the number value \<open>v\<close>;
  among these the \<open>s\<close> for which \<open>s * ipow 10 (n - k)\<close> is nearest to \<open>v\<close>, the even one of two
  equally near; then the digits of \<open>s\<close> laid out in positional notation when \<open>-5 \<le> n \<le> 21\<close> and
  with an exponent otherwise. For each \<open>k\<close> from 1 to 17 the search tries the two values of \<open>n\<close>
  next to the decimal exponent of \<open>v\<close> and, for each, the two values of \<open>s\<close> next to
  \<open>v / ipow 10 (n - k)\<close>.
\<close>

function digitsOf :: "int \<Rightarrow> string" where
  "digitsOf n =
     (if n < 10 then [''0123456789'' ! nat n]
      else digitsOf (n div 10) @ [''0123456789'' ! nat (n mod 10)])"
  by pat_completeness auto
termination
  by (relation "measure nat") auto

declare digitsOf.simps [simp del]

definition candidates :: "rat \<Rightarrow> nat \<Rightarrow> (int \<times> int) list" where
  "candidates v k =
     [(n, s).
        n \<leftarrow> [ilog 10 v + 1, ilog 10 v + 2],
        s \<leftarrow> [\<lfloor>v / ipow 10 (n - int k)\<rfloor>, \<lfloor>v / ipow 10 (n - int k)\<rfloor> + 1],
        10 ^ (k - 1) \<le> s \<and> s < 10 ^ k \<and> round64 (of_int s * ipow 10 (n - int k)) = Fin v]"

definition distance :: "rat \<Rightarrow> nat \<Rightarrow> int \<times> int \<Rightarrow> rat" where
  "distance v k c = \<bar>of_int (snd c) * ipow 10 (fst c - int k) - v\<bar>"

fun closest :: "rat \<Rightarrow> nat \<Rightarrow> int \<times> int \<Rightarrow> (int \<times> int) list \<Rightarrow> int \<times> int" where
  "closest v k c [] = c"
| "closest v k c (d # ds) =
     (if distance v k d < distance v k c \<or> (distance v k d = distance v k c \<and> even (snd d))
      then closest v k d ds else closest v k c ds)"

fun shortest :: "rat \<Rightarrow> nat \<Rightarrow> nat \<Rightarrow> (nat \<times> int \<times> int) option" where
  "shortest v 0 k = None"
| "shortest v (Suc fuel) k =
     (case candidates v k of
        [] \<Rightarrow> shortest v fuel (Suc k)
      | c # cs \<Rightarrow> Some (k, closest v k c cs))"

definition formatDigits :: "nat \<Rightarrow> int \<Rightarrow> string \<Rightarrow> string" where
  "formatDigits k n ds =
     (if - 5 \<le> n \<and> n \<le> 21 then
        (if int k \<le> n then ds @ replicate (nat (n - int k)) CHR ''0''
         else if 0 < n then take (nat n) ds @ ''.'' @ drop (nat n) ds
         else ''0.'' @ replicate (nat (- n)) CHR ''0'' @ ds)
      else
        (if k = 1 then ds else take 1 ds @ ''.'' @ drop 1 ds)
        @ ''e'' @ (if 0 \<le> n - 1 then ''+'' else ''-'') @ digitsOf \<bar>n - 1\<bar>)"

definition positiveToString :: "rat \<Rightarrow> string" where
  "positiveToString v =
     (case shortest v 17 1 of
        None \<Rightarrow> []
      | Some (k, n, s) \<Rightarrow> formatDigits k n (digitsOf s))"

fun NumberToString :: "jsnum \<Rightarrow> jsstring" where
  "NumberToString NaN = units ''NaN''"
| "NumberToString PosInf = units ''Infinity''"
| "NumberToString NegInf = units ''-Infinity''"
| "NumberToString (Fin q) =
     (if q = 0 then units ''0''
      else if q < 0 then units (CHR ''-'' # positiveToString (- q))
      else units (positiveToString q))"

declare NumberToString.simps [simp del]

subsection \<open>App: the persisted total\<close>

text \<open>\<^verbatim>\<open>Number(localStorage.getItem('totalPoints'))\<close>; \<open>None\<close> is the absent key (\<^verbatim>\<open>null\<close>).\<close>

fun Number_item :: "jsstring option \<Rightarrow> jsnum" where
  "Number_item None = Fin 0"
| "Number_item (Some s) = StringToNumber s"

text \<open>\<^verbatim>\<open>n || 0\<close>: the falsy numbers are \<open>NaN\<close> and zero.\<close>

fun or_zero :: "jsnum \<Rightarrow> jsnum" where
  "or_zero NaN = Fin 0"
| "or_zero (Fin q) = (if q = 0 then Fin 0 else Fin q)"
| "or_zero PosInf = PosInf"
| "or_zero NegInf = NegInf"

definition initialTotalPoints :: "jsstring option \<Rightarrow> jsnum" where
  "initialTotalPoints item = or_zero (Number_item item)"

subsection \<open>App: state and handlers\<close>

text \<open>Sound playback is a presentation effect and is left out of the handlers.\<close>

record App =
  gameState :: GameState
  score :: int
  coins :: int
  totalPoints :: jsnum
  difficulty :: Difficulty

definition initialApp :: "jsstring option \<Rightarrow> App" where
  "initialApp item =
     \<lparr>gameState = Ready, score = 0, coins = 0, totalPoints = initialTotalPoints item,
      difficulty = normal\<rparr>"

definition handleStartGame :: "App \<Rightarrow> App" where
  "handleStartGame a = a\<lparr>score := 0, coins := 0, gameState := Playing\<rparr>"

text \<open>
  \<^verbatim>\<open>prevTotal + score\<close> is the host's addition of two numbers; the score is a count of
  callbacks and is kept as an integer.
\<close>

definition handleGameOver :: "App \<Rightarrow> App" where
  "handleGameOver a =
     a\<lparr>gameState := GameOver,
       totalPoints := js_add (totalPoints a) (Fin (of_int (score a)))\<rparr>"

definition handleScore :: "App \<Rightarrow> App" where
  "handleScore a = a\<lparr>score := score a + 1\<rparr>"

definition handleCoinCollect :: "App \<Rightarrow> App" where
  "handleCoinCollect a = a\<lparr>coins := coins a + 1, score := score a + 1\<rparr>"

definition handleSelectDifficulty :: "Difficulty \<Rightarrow> App \<Rightarrow> App" where
  "handleSelectDifficulty newDifficulty a = a\<lparr>difficulty := newDifficulty, gameState := Ready\<rparr>"

text \<open>The props passed to \<^verbatim>\<open>GameBoard\<close>: which handler each callback is.\<close>

fun callback :: "signal \<Rightarrow> App \<Rightarrow> App" where
  "callback onGameOver = handleGameOver"
| "callback onScore = handleScore"
| "callback onCoinCollect = handleCoinCollect"

text \<open>
  The effect with dependency \<^verbatim>\<open>[totalPoints]\<close>: after a render in which the total changed, the
  stored item is overwritten.
\<close>

definition persistEffect :: "jsnum \<Rightarrow> jsnum \<Rightarrow> jsstring option \<Rightarrow> jsstring option" where
  "persistEffect oldTotal newTotal item =
     (if newTotal \<noteq> oldTotal then Some (NumberToString newTotal) else item)"

subsection \<open>App and GameBoard together\<close>

text \<open>
  \<^verbatim>\<open>renderContent\<close> chooses the screen from the game state; the board is part of the playing
  screen only, so it is mounted exactly while that screen is shown, and its key listener exists
  exactly while it is mounted.
\<close>

datatype screen = PlayingScreen | GameOverScreen | ModeSelectionScreen | ReadyScreen

fun renderContent :: "GameState \<Rightarrow> screen" where
  "renderContent Playing = PlayingScreen"
| "renderContent GameOver = GameOverScreen"
| "renderContent ModeSelection = ModeSelectionScreen"
| "renderContent Ready = ReadyScreen"

record world =
  app :: App
  board :: "GameBoard option"
  rng :: nat
  storage :: "jsstring option"

text \<open>The first render of \<^verbatim>\<open>App\<close> and its mount effects.\<close>

definition initialWorld :: "jsstring option \<Rightarrow> world" where
  "initialWorld item =
     \<lparr>app = initialApp item, board = None, rng = 0,
      storage = Some (NumberToString (totalPoints (initialApp item)))\<rparr>"

datatype event =
  KeyDown string
  | ClickStart
  | ClickGameModes
  | ClickDifficulty Difficulty
  | ClickBack

text \<open>
  Button clicks: a button acts only on the screen that shows it. Start Game and Play Again both
  call \<^verbatim>\<open>handleStartGame\<close>.
\<close>

fun click :: "event \<Rightarrow> App \<Rightarrow> App" where
  "click ClickStart a =
     (if renderContent (gameState a) = ReadyScreen \<or> renderContent (gameState a) = GameOverScreen
      then handleStartGame a else a)"
| "click ClickGameModes a =
     (if renderContent (gameState a) = ReadyScreen then a\<lparr>gameState := ModeSelection\<rparr> else a)"
| "click (ClickDifficulty d) a =
     (if renderContent (gameState a) = ModeSelectionScreen then handleSelectDifficulty d a else a)"
| "click ClickBack a =
     (if renderContent (gameState a) = ModeSelectionScreen then a\<lparr>gameState := Ready\<rparr> else a)"
| "click (KeyDown key) a = a"

text \<open>
  Render and effects after the handlers of one event: \<open>a'\<close> is the new controller state, \<open>b\<close>
  the board as the handlers left it (if it was mounted) and \<open>r\<close> the next unread draw. A board
  that is newly mounted, or whose settings changed, runs \<^verbatim>\<open>resetGame\<close>; a board that is not
  rendered is unmounted and its state is gone.
\<close>

definition commit ::
  "int \<Rightarrow> (nat \<Rightarrow> real) \<Rightarrow> world \<Rightarrow> App \<Rightarrow> GameBoard option \<Rightarrow> nat \<Rightarrow> world option" where
  "commit N rnd w a' b r =
     (let item = persistEffect (totalPoints (app w)) (totalPoints a') (storage w) in
      if renderContent (gameState a') = PlayingScreen then
        (case b of
           Some b' \<Rightarrow>
             if difficultySettings (difficulty a') = difficultySettings (difficulty (app w))
             then Some \<lparr>app = a', board = Some b', rng = r, storage = item\<rparr>
             else map_option (\<lambda>(b'', r'). \<lparr>app = a', board = Some b'', rng = r', storage = item\<rparr>)
                    (resetGame N rnd (difficultySettings (difficulty a')) r)
         | None \<Rightarrow>
             map_option (\<lambda>(b'', r'). \<lparr>app = a', board = Some b'', rng = r', storage = item\<rparr>)
               (resetGame N rnd (difficultySettings (difficulty a')) r))
      else Some \<lparr>app = a', board = None, rng = r, storage = item\<rparr>)"

text \<open>
  One event, handled to completion: the new world and the callbacks the board called. A key
  press reaches \<^verbatim>\<open>handleKeyDown\<close> only through the listener of a mounted board.
\<close>

definition dispatch ::
  "int \<Rightarrow> (nat \<Rightarrow> real) \<Rightarrow> world \<Rightarrow> event \<Rightarrow> (world \<times> signal list) option" where
  "dispatch N rnd w e =
     (case e of
        KeyDown key \<Rightarrow>
          (case board w of
             None \<Rightarrow> Some (w, [])
           | Some b \<Rightarrow>
               (case handleKeyDown N rnd (difficultySettings (difficulty (app w))) key b (rng w) of
                  None \<Rightarrow> None
                | Some (b', sigs, r') \<Rightarrow>
                    map_option (\<lambda>w'. (w', sigs))
                      (commit N rnd w (fold callback sigs (app w)) (Some b') r')))
      | _ \<Rightarrow> map_option (\<lambda>w'. (w', [])) (commit N rnd w (click e (app w)) (board w) (rng w)))"

fun run :: "int \<Rightarrow> (nat \<Rightarrow> real) \<Rightarrow> world \<Rightarrow> event list \<Rightarrow> (world \<times> signal list) option" where
  "run N rnd w [] = Some (w, [])"
| "run N rnd w (e # es) =
     (case dispatch N rnd w e of
        None \<Rightarrow> None
      | Some (w', sigs) \<Rightarrow>
          (case run N rnd w' es of
             None \<Rightarrow> None
           | Some (w'', sigs') \<Rightarrow> Some (w'', sigs @ sigs')))"

section \<open>Notions used in the statements\<close>

definition in_bounds :: "int \<Rightarrow> Position \<Rightarrow> bool" where
  "in_bounds N p \<longleftrightarrow> 0 \<le> x p \<and> x p \<le> N - 1 \<and> 0 \<le> y p \<and> y p \<le> N - 1"

text \<open>The contract of \<^verbatim>\<open>Math.random()\<close>: every draw lies in [0, 1).\<close>

definition unit_draws :: "(nat \<Rightarrow> real) \<Rightarrow> bool" where
  "unit_draws rnd \<longleftrightarrow> (\<forall>i. 0 \<le> rnd i \<and> rnd i < 1)"

text \<open>The cell of the \<open>k\<close>-th attempt of a placement that starts reading at draw \<open>r\<close>.\<close>

definition nth_draw :: "int \<Rightarrow> (nat \<Rightarrow> real) \<Rightarrow> nat \<Rightarrow> nat \<Rightarrow> Position" where
  "nth_draw N rnd r k =
     \<lparr>x = random_cell N (rnd (r + 2 * k)), y = random_cell N (rnd (r + 2 * k + 1))\<rparr>"

text \<open>
  A fair source: read pairwise from any index on, it draws every cell of the board at some
  attempt.
\<close>

definition fair :: "int \<Rightarrow> (nat \<Rightarrow> real) \<Rightarrow> bool" where
  "fair N rnd \<longleftrightarrow> (\<forall>r c. in_bounds N c \<longrightarrow> (\<exists>k. nth_draw N rnd r k = c))"

text \<open>
  The board invariant: the bird and the seeds are on pairwise different cells, seed ids are
  pairwise different, and every id is below the id counter.
\<close>

definition board_inv :: "GameBoard \<Rightarrow> bool" where
  "board_inv b \<longleftrightarrow>
     distinct (birdPosition b # map position (seeds b))
     \<and> distinct (map id_seed (seeds b))
     \<and> (\<forall>s\<in>set (seeds b). id_seed s < seedIdCounter b)"

text \<open>A sequence of key presses on a mounted board, one after the other.\<close>

fun moves ::
  "int \<Rightarrow> (nat \<Rightarrow> real) \<Rightarrow> settings \<Rightarrow> string list \<Rightarrow> GameBoard \<times> nat
     \<Rightarrow> (GameBoard \<times> nat) option" where
  "moves N rnd st [] c = Some c"
| "moves N rnd st (key # keys) c =
     (case handleKeyDown N rnd st key (fst c) (snd c) of
        None \<Rightarrow> None
      | Some (b', sigs, r') \<Rightarrow> moves N rnd st keys (b', r'))"

text \<open>
  The controller's part of one event: a handler runs, then the render's persistence effect.
  A session is a start, the board's scoring callbacks in order, and the game-over callback.
\<close>

definition rerender ::
  "(App \<Rightarrow> App) \<Rightarrow> App \<times> jsstring option \<Rightarrow> App \<times> jsstring option" where
  "rerender h c =
     (h (fst c), persistEffect (totalPoints (fst c)) (totalPoints (h (fst c))) (snd c))"

definition session ::
  "signal list \<Rightarrow> App \<times> jsstring option \<Rightarrow> App \<times> jsstring option" where
  "session sigs c =
     rerender handleGameOver
       (fold (\<lambda>s. rerender (callback s)) sigs (rerender handleStartGame c))"

subsection \<open>Concrete inputs\<close>

text \<open>A source whose every draw is 0: every attempt is the cell (0, 0).\<close>

definition stuck_source :: "nat \<Rightarrow> real" where
  "stuck_source i = 0"

text \<open>A source that walks through all cells of a 20 by 20 board, over and over.\<close>

definition cycle_source :: "nat \<Rightarrow> real" where
  "cycle_source i =
     real (if even i then (i div 2) mod 20 else (i div 2) div 20 mod 20) / 20"

text \<open>
  The board after \<^verbatim>\<open>resetGame\<close> on the easy profile with the cycling source, and the state
  ten presses of ArrowUp later.
\<close>

definition start_state :: "GameBoard \<times> nat" where
  "start_state = the (resetGame 20 cycle_source (difficultySettings easy) 0)"

definition top_state :: "GameBoard \<times> nat" where
  "top_state =
     the (moves 20 cycle_source (difficultySettings easy) (replicate 10 ''ArrowUp'') start_state)"

text \<open>A board with a hard seed directly above the bird.\<close>

definition hazard_board :: GameBoard where
  "hazard_board =
     \<lparr>birdPosition = \<lparr>x = 10, y = 10\<rparr>,
      seeds = [\<lparr>id_seed = 0, position = \<lparr>x = 3, y = 4\<rparr>, type_seed = Good\<rparr>,
               \<lparr>id_seed = 1, position = \<lparr>x = 10, y = 9\<rparr>, type_seed = Hard\<rparr>],
      seedIdCounter = 2\<rparr>"

text \<open>A board with a good seed directly above the bird and a coin to its right.\<close>

definition example_board :: GameBoard where
  "example_board =
     \<lparr>birdPosition = \<lparr>x = 10, y = 10\<rparr>,
      seeds = [\<lparr>id_seed = 0, position = \<lparr>x = 10, y = 9\<rparr>, type_seed = Good\<rparr>,
               \<lparr>id_seed = 1, position = \<lparr>x = 3, y = 4\<rparr>, type_seed = Hard\<rparr>,
               \<lparr>id_seed = 2, position = \<lparr>x = 11, y = 10\<rparr>, type_seed = Coin\<rparr>],
      seedIdCounter = 3\<rparr>"

definition example_world :: world where
  "example_world =
     \<lparr>app = \<lparr>gameState = Playing, score = 2, coins = 1, totalPoints = Fin 0,
             difficulty = easy\<rparr>,
      board = Some example_board, rng = 0, storage = Some (units ''0'')\<rparr>"

text \<open>A game in play on the board with the hard seed, and the world after that seed is hit.\<close>

definition hazard_world :: world where
  "hazard_world =
     \<lparr>app = \<lparr>gameState = Playing, score = 2, coins = 1, totalPoints = Fin 0,
             difficulty = easy\<rparr>,
      board = Some hazard_board, rng = 0, storage = Some (units ''0'')\<rparr>"

definition over_world :: world where
  "over_world =
     \<lparr>app = \<lparr>gameState = GameOver, score = 2, coins = 1, totalPoints = Fin 2,
             difficulty = easy\<rparr>,
      board = None, rng = 0, storage = Some (units ''2'')\<rparr>"

text \<open>
  Two games in a row from the first render with no stored item, on the cycling source. The
  key presses of the first lead the bird over five good seeds and stop below a hard seed;
  ArrowUp then ends the game. The key presses of the second lead it over two good seeds and a
  coin and then into a hard seed.
\<close>

definition first_moves :: "string list" where
  "first_moves =
     replicate 8 ''ArrowUp''
     @ [''ArrowRight'', ''ArrowUp'', ''ArrowRight'', ''ArrowUp'', ''ArrowRight'', ''ArrowDown'',
        ''ArrowDown'', ''ArrowRight'', ''ArrowUp'', ''ArrowDown'', ''ArrowDown'']
     @ replicate 5 ''ArrowRight''"

definition second_keys :: "string list" where
  "second_keys =
     replicate 6 ''ArrowUp'' @ replicate 3 ''ArrowLeft'' @ [''ArrowUp'']
     @ replicate 3 ''ArrowLeft'' @ [''ArrowUp''] @ replicate 3 ''ArrowLeft''
     @ [''ArrowDown'', ''ArrowDown'']"

definition playing_world :: world where
  "playing_world =
     fst (the (run 20 cycle_source (initialWorld None) (ClickStart # map KeyDown first_moves)))"

definition first_over :: world where
  "first_over = fst (the (dispatch 20 cycle_source playing_world (KeyDown ''ArrowUp'')))"

definition second_over :: world where
  "second_over =
     fst (the (run 20 cycle_source first_over (ClickStart # map KeyDown second_keys)))"

section \<open>Properties\<close>

subsection \<open>Lists and positions\<close>

lemma Position_eq_iff: "p = q \<longleftrightarrow> x p = x q \<and> y p = y q" for p q :: Position
  by auto

lemma occupied_iff:
  "list_ex (\<lambda>p. x p = a \<and> y p = b) ps \<longleftrightarrow> \<lparr>x = a, y = b\<rparr> \<in> set ps"
  by (induction ps) auto

lemma findIndex_None_iff: "findIndex P xs = None \<longleftrightarrow> (\<forall>a\<in>set xs. \<not> P a)"
  by (induction xs) auto

lemma findIndex_Some:
  "findIndex P xs = Some k \<Longrightarrow> k < length xs \<and> P (xs ! k) \<and> (\<forall>j<k. \<not> P (xs ! j))"
proof (induction xs arbitrary: k)
  case Nil
  then show ?case by simp
next
  case (Cons a as)
  show ?case
  proof (cases "P a")
    case True
    with Cons.prems show ?thesis by simp
  next
    case False
    with Cons.prems obtain k' where k': "findIndex P as = Some k'" "k = Suc k'"
      by auto
    from Cons.IH[OF k'(1)] False k'(2) show ?thesis
      by (auto simp: less_Suc_eq_0_disj)
  qed
qed

text \<open>With pairwise distinct seed positions, the seed found at a cell is the seed that is there.\<close>

lemma findIndex_unique:
  assumes "s \<in> set ss" "distinct (map position ss)"
  shows "\<exists>k. findIndex (\<lambda>seed. x (position seed) = x (position s)
                \<and> y (position seed) = y (position s)) ss = Some k \<and> ss ! k = s"
proof -
  let ?P = "\<lambda>seed. x (position seed) = x (position s) \<and> y (position seed) = y (position s)"
  have "findIndex ?P ss \<noteq> None"
    using assms(1) by (auto simp: findIndex_None_iff)
  then obtain k where k: "findIndex ?P ss = Some k" by auto
  from findIndex_Some[OF this] have kl: "k < length ss" and pk: "position (ss ! k) = position s"
    by (auto simp: Position_eq_iff)
  from assms(1) obtain j where j: "j < length ss" "ss ! j = s"
    by (auto simp: in_set_conv_nth)
  have "k = j"
    using nth_eq_iff_index_eq[OF assms(2), of k j] kl j pk by simp
  with k j show ?thesis by simp
qed

lemma findIndex_map_cong:
  "map P xs = map P ys \<Longrightarrow> findIndex P xs = findIndex P ys"
proof (induction xs arbitrary: ys)
  case Nil
  then show ?case by simp
next
  case (Cons a as)
  then obtain b bs where "ys = b # bs" "P a = P b" "map P as = map P bs"
    by (cases ys) auto
  with Cons.IH[of bs] show ?case by simp
qed

lemma filter_index_drop:
  "filter_index (\<lambda>_ index. index \<noteq> n + k) n xs = take k xs @ drop (Suc k) xs"
proof (induction xs arbitrary: n k)
  case Nil
  then show ?case by simp
next
  case (Cons a as)
  show ?case
  proof (cases k)
    case 0
    have "filter_index (\<lambda>_ index. index \<noteq> n) (Suc n) as = as" for as :: "'a list"
    proof -
      have "n < m \<Longrightarrow> filter_index (\<lambda>_ index. index \<noteq> n) m as = as" for m and as :: "'a list"
        by (induction as arbitrary: m) auto
      then show ?thesis by simp
    qed
    with 0 show ?thesis by simp
  next
    case (Suc k')
    have "filter_index (\<lambda>_ index. index \<noteq> Suc n + k') (Suc n) as = take k' as @ drop (Suc k') as"
      by (rule Cons.IH)
    with Suc show ?thesis by simp
  qed
qed

lemma filter_index_remove:
  "filter_index (\<lambda>_ index. index \<noteq> k) 0 xs = take k xs @ drop (Suc k) xs"
  using filter_index_drop[of 0 k xs] by simp

lemma set_remove_nth: "set (take k xs @ drop (Suc k) xs) \<subseteq> set xs"
  by (auto dest: in_set_takeD in_set_dropD)

lemma distinct_remove_nth:
  assumes "distinct (map f xs)"
  shows "distinct (map f (take k xs @ drop (Suc k) xs))"
proof -
  have "map f (take k xs @ drop (Suc k) xs) = take k (map f xs) @ drop (Suc k) (map f xs)"
    by (simp add: take_map drop_map)
  moreover have "distinct (take k (map f xs) @ drop (Suc k) (map f xs))"
  proof -
    define ys where "ys = map f xs"
    have that: "distinct ys" using assms by (simp add: ys_def)
    have "ys = take k ys @ drop k ys" by simp
    moreover have "set (drop (Suc k) ys) \<subseteq> set (drop k ys)"
      by (metis Suc_n_not_le_n nat_le_linear set_drop_subset_set_drop)
    ultimately have "distinct (take k ys @ drop (Suc k) ys)"
      using that
      by (metis distinct_append distinct_drop disjoint_iff subsetD)
    then show ?thesis by (simp add: ys_def)
  qed
  ultimately show ?thesis by simp
qed

lemma nth_not_in_remove_nth:
  assumes "distinct (map f xs)" "k < length xs"
  shows "f (xs ! k) \<notin> f ` set (take k xs @ drop (Suc k) xs)"
proof
  assume "f (xs ! k) \<in> f ` set (take k xs @ drop (Suc k) xs)"
  then obtain z where z: "z \<in> set (take k xs @ drop (Suc k) xs)" "f z = f (xs ! k)"
    by force
  then consider "z \<in> set (take k xs)" | "z \<in> set (drop (Suc k) xs)" by auto
  then obtain j where j: "j < length xs" "j \<noteq> k" "xs ! j = z"
  proof cases
    case 1
    then obtain j where "j < length (take k xs)" "take k xs ! j = z"
      by (auto simp: in_set_conv_nth)
    with assms(2) have "j < length xs" "j \<noteq> k" "xs ! j = z" by simp_all
    then show ?thesis by (rule that)
  next
    case 2
    then obtain j where "j < length (drop (Suc k) xs)" "drop (Suc k) xs ! j = z"
      by (auto simp: in_set_conv_nth)
    with assms(2) have "Suc k + j < length xs" "Suc k + j \<noteq> k" "xs ! (Suc k + j) = z"
      by simp_all
    then show ?thesis by (rule that)
  qed
  with z(2) have "map f xs ! j = map f xs ! k" using assms(2) by simp
  with nth_eq_iff_index_eq[OF assms(1), of j k] j assms(2) show False by simp
qed

lemma remove_nth_remove1:
  "distinct xs \<Longrightarrow> k < length xs \<Longrightarrow> take k xs @ drop (Suc k) xs = remove1 (xs ! k) xs"
proof (induction xs arbitrary: k)
  case Nil
  then show ?case by simp
next
  case (Cons a as)
  then show ?case by (cases k) auto
qed

subsection \<open>The placement loop\<close>

lemma getRandomPosition_unfold:
  "getRandomPosition N rnd r ex =
     (if nth_draw N rnd r 0 \<in> set ex then getRandomPosition N rnd (r + 2) ex
      else Some (nth_draw N rnd r 0, r + 2))"
  by (subst getRandomPosition.simps) (simp add: occupied_iff nth_draw_def)

lemma nth_draw_shift: "nth_draw N rnd (r + 2) k = nth_draw N rnd r (Suc k)"
  by (simp add: nth_draw_def add.commute add.left_commute)

lemma nth_draw_shift': "nth_draw N rnd (Suc (Suc r)) k = nth_draw N rnd r (Suc k)"
  by (simp add: nth_draw_def add.commute add.left_commute)

text \<open>A result of the loop is its first attempt that is not occupied.\<close>

lemma getRandomPosition_Some:
  assumes "getRandomPosition N rnd r ex = Some res"
  shows "\<exists>k. res = (nth_draw N rnd r k, r + 2 * Suc k) \<and> nth_draw N rnd r k \<notin> set ex
            \<and> (\<forall>j<k. nth_draw N rnd r j \<in> set ex)"
proof (rule getRandomPosition.raw_induct[where P = "\<lambda>N rnd r ex res.
      \<exists>k. res = (nth_draw N rnd r k, r + 2 * Suc k) \<and> nth_draw N rnd r k \<notin> set ex
            \<and> (\<forall>j<k. nth_draw N rnd r j \<in> set ex)", OF _ assms], goal_cases)
  case (1 rec N rnd r ex res)
  show ?case
  proof (cases "nth_draw N rnd r 0 \<in> set ex")
    case True
    with 1(2) have "rec N rnd (r + 2) ex = Some res"
      by (simp add: occupied_iff nth_draw_def)
    from 1(1)[OF this] obtain k where
      k: "res = (nth_draw N rnd (r + 2) k, r + 2 + 2 * Suc k)"
         "nth_draw N rnd (r + 2) k \<notin> set ex"
         "\<forall>j<k. nth_draw N rnd (r + 2) j \<in> set ex"
      by blast
    have "\<forall>j<Suc k. nth_draw N rnd r j \<in> set ex"
    proof (intro allI impI)
      fix j assume "j < Suc k"
      then show "nth_draw N rnd r j \<in> set ex"
        using True k(3) by (cases j) (auto simp: nth_draw_shift nth_draw_shift')
    qed
    with k show ?thesis
      by (intro exI[of _ "Suc k"]) (simp add: nth_draw_shift nth_draw_shift')
  next
    case False
    with 1(2) have "res = (nth_draw N rnd r 0, r + 2)"
      by (auto simp: occupied_iff nth_draw_def)
    with False show ?thesis
      by (intro exI[of _ 0]) simp
  qed
qed

lemma getRandomPosition_first_free:
  assumes "nth_draw N rnd r k \<notin> set ex" "\<forall>j<k. nth_draw N rnd r j \<in> set ex"
  shows "getRandomPosition N rnd r ex = Some (nth_draw N rnd r k, r + 2 * Suc k)"
  using assms
proof (induction k arbitrary: r)
  case 0
  then show ?case by (subst getRandomPosition_unfold) simp
next
  case (Suc k)
  have hit: "nth_draw N rnd r 0 \<in> set ex" using Suc.prems(2) by simp
  have "getRandomPosition N rnd (r + 2) ex = Some (nth_draw N rnd (r + 2) k, r + 2 + 2 * Suc k)"
  proof (rule Suc.IH)
    show "nth_draw N rnd (r + 2) k \<notin> set ex"
      using Suc.prems(1) by (simp add: nth_draw_shift nth_draw_shift')
    show "\<forall>j<k. nth_draw N rnd (r + 2) j \<in> set ex"
      using Suc.prems(2) by (simp add: nth_draw_shift nth_draw_shift')
  qed
  then show ?case
    by (subst getRandomPosition_unfold) (simp add: hit nth_draw_shift nth_draw_shift')
qed

lemma getRandomPosition_None_iff:
  "getRandomPosition N rnd r ex = None \<longleftrightarrow> (\<forall>k. nth_draw N rnd r k \<in> set ex)"
proof
  assume none: "getRandomPosition N rnd r ex = None"
  show "\<forall>k. nth_draw N rnd r k \<in> set ex"
  proof (rule ccontr)
    assume "\<not> (\<forall>k. nth_draw N rnd r k \<in> set ex)"
    then have ex: "\<exists>k. nth_draw N rnd r k \<notin> set ex" by simp
    define k where "k = (LEAST k. nth_draw N rnd r k \<notin> set ex)"
    have "nth_draw N rnd r k \<notin> set ex" unfolding k_def using ex by (rule LeastI_ex)
    moreover have "\<forall>j<k. nth_draw N rnd r j \<in> set ex"
      unfolding k_def using not_less_Least by blast
    ultimately show False using getRandomPosition_first_free none by fastforce
  qed
next
  assume "\<forall>k. nth_draw N rnd r k \<in> set ex"
  then show "getRandomPosition N rnd r ex = None"
    using getRandomPosition_Some by (cases "getRandomPosition N rnd r ex") fastforce+
qed

subsection \<open>Draws, cells and fair sources\<close>

lemma random_cell_range:
  assumes "0 \<le> u" "u < 1" "0 < N"
  shows "0 \<le> random_cell N u \<and> random_cell N u \<le> N - 1"
proof -
  have "0 \<le> u * of_int N" using assms by simp
  then have lo: "0 \<le> random_cell N u" by (simp add: random_cell_def)
  have "u * of_int N < of_int N" using assms by simp
  then have "random_cell N u < N" by (simp add: random_cell_def floor_less_iff)
  with lo show ?thesis by simp
qed

lemma nth_draw_in_bounds:
  assumes "unit_draws rnd" "0 < N"
  shows "in_bounds N (nth_draw N rnd r k)"
proof -
  have "0 \<le> random_cell N (rnd i) \<and> random_cell N (rnd i) \<le> N - 1" for i
    using assms by (intro random_cell_range) (simp_all add: unit_draws_def)
  then show ?thesis by (simp add: in_bounds_def nth_draw_def)
qed

lemma card_cells: "0 < N \<Longrightarrow> card {c. in_bounds N c} = nat (N * N)"
proof -
  assume N: "0 < N"
  let ?f = "\<lambda>(a, b). \<lparr>x = a, y = b\<rparr>"
  have "{c. in_bounds N c} = ?f ` ({0..N - 1} \<times> {0..N - 1})"
  proof (intro set_eqI iffI)
    fix c assume "c \<in> {c. in_bounds N c}"
    then have "(x c, y c) \<in> {0..N - 1} \<times> {0..N - 1}" by (simp add: in_bounds_def)
    moreover have "c = ?f (x c, y c)" by simp
    ultimately show "c \<in> ?f ` ({0..N - 1} \<times> {0..N - 1})" by blast
  next
    fix c assume "c \<in> ?f ` ({0..N - 1} \<times> {0..N - 1})"
    then show "c \<in> {c. in_bounds N c}" by (auto simp: in_bounds_def)
  qed
  moreover have "inj_on ?f ({0..N - 1} \<times> {0..N - 1})"
    by (auto simp: inj_on_def)
  ultimately have "card {c. in_bounds N c} = card ({0..N - 1} \<times> {0..N - 1})"
    by (simp add: card_image)
  also have "\<dots> = nat N * nat N" using N by (simp add: card_cartesian_product)
  also have "\<dots> = nat (N * N)" using N by (simp add: nat_mult_distrib)
  finally show ?thesis .
qed

lemma free_cell_exists:
  assumes "0 < N" "int (length ex) < N * N"
  shows "\<exists>c. in_bounds N c \<and> c \<notin> set ex"
proof (rule ccontr)
  assume "\<not> (\<exists>c. in_bounds N c \<and> c \<notin> set ex)"
  then have "{c. in_bounds N c} \<subseteq> set ex" by blast
  then have "card {c. in_bounds N c} \<le> card (set ex)"
    by (intro card_mono) simp_all
  also have "\<dots> \<le> length ex" by (rule card_length)
  finally have "nat (N * N) \<le> length ex" using assms(1) by (simp add: card_cells)
  with assms(2) show False by linarith
qed

lemma fair_terminates:
  assumes "fair N rnd" "0 < N" "int (length ex) < N * N"
  shows "\<exists>p r'. getRandomPosition N rnd r ex = Some (p, r')"
proof -
  from free_cell_exists[OF assms(2,3)] obtain c where c: "in_bounds N c" "c \<notin> set ex"
    by blast
  with assms(1) obtain k where "nth_draw N rnd r k = c" unfolding fair_def by blast
  with c have "\<not> (\<forall>k. nth_draw N rnd r k \<in> set ex)" by blast
  then have "getRandomPosition N rnd r ex \<noteq> None" by (simp add: getRandomPosition_None_iff)
  then show ?thesis by auto
qed

lemma random_cell_cycle:
  "random_cell 20 (cycle_source i)
     = int (if even i then (i div 2) mod 20 else (i div 2) div 20 mod 20)"
  by (simp add: random_cell_def cycle_source_def)

lemma split_cell:
  fixes a cx cy :: nat
  assumes "cx < 20" "cy < 20"
  shows "(400 * (a + 1) + 20 * cy + cx) mod 20 = cx"
    and "(400 * (a + 1) + 20 * cy + cx) div 20 mod 20 = cy"
proof -
  define q where "q = cy + 20 * (a + 1)"
  define q' where "q' = a + 1"
  have e: "400 * (a + 1) + 20 * cy + cx = cx + 20 * q" by (simp add: q_def)
  have e': "q = cy + 20 * q'" by (simp add: q_def q'_def)
  show "(400 * (a + 1) + 20 * cy + cx) mod 20 = cx"
    unfolding e using assms(1) by simp
  have "(cx + 20 * q) div 20 = q"
    using assms(1) by simp
  then show "(400 * (a + 1) + 20 * cy + cx) div 20 mod 20 = cy"
    unfolding e using assms(2) by (simp add: e')
qed

lemma pred_mod:
  fixes cy :: nat
  assumes "cy < 20"
  shows "((cy + 19) mod 20 + 1) mod 20 = cy"
proof (cases "cy = 0")
  case True
  then show ?thesis by simp
next
  case False
  then obtain c where c: "cy = Suc c" by (cases cy) auto
  with assms have "c < 19" by simp
  have "(cy + 19) mod 20 = c"
  proof -
    have "cy + 19 = c + 20 * 1" using c by simp
    then have "(cy + 19) mod 20 = c mod 20" by (metis mod_mult_self2)
    with \<open>c < 19\<close> show ?thesis by simp
  qed
  with c assms show ?thesis by simp
qed

lemma unit_draws_cycle: "unit_draws cycle_source"
  by (simp add: unit_draws_def cycle_source_def)

lemma fair_cycle: "fair 20 cycle_source"
  unfolding fair_def
proof (intro allI impI)
  fix r :: nat and c :: Position
  assume "in_bounds 20 c"
  then obtain cx cy :: nat where c: "c = \<lparr>x = int cx, y = int cy\<rparr>" "cx < 20" "cy < 20"
    by (cases c) (auto simp: in_bounds_def intro: that[of "nat _" "nat _"])
  show "\<exists>k. nth_draw 20 cycle_source r k = c"
  proof (cases "even r")
    case True
    then obtain a where a: "r = 2 * a" by (elim evenE)
    define k where "k = 400 * (a + 1) + 20 * cy + cx - a"
    have k: "a + k = 400 * (a + 1) + 20 * cy + cx" by (simp add: k_def)
    have e: "r + 2 * k = 2 * (a + k)" by (simp add: a)
    have "(a + k) mod 20 = cx" "(a + k) div 20 mod 20 = cy"
      unfolding k using split_cell[OF c(2,3)] by simp_all
    then have "nth_draw 20 cycle_source r k = c"
      unfolding nth_draw_def random_cell_cycle e c(1) by simp
    then show ?thesis ..
  next
    case False
    then obtain a where a: "r = 2 * a + 1" by (elim oddE)
    define k where "k = 400 * (a + 1) + 20 * cx + (cy + 19) mod 20 - a"
    have k: "a + k = 400 * (a + 1) + 20 * cx + (cy + 19) mod 20" by (simp add: k_def)
    have e: "r + 2 * k = 2 * (a + k) + 1" "r + 2 * k + 1 = 2 * (a + k + 1)" by (simp_all add: a)
    have lt: "(cy + 19) mod 20 < 20" by simp
    have m: "(a + k) mod 20 = (cy + 19) mod 20" and d: "(a + k) div 20 mod 20 = cx"
      unfolding k using split_cell[OF lt c(2), of a] by simp_all
    have "(a + k + 1) mod 20 = ((a + k) mod 20 + 1) mod 20"
      by (rule mod_add_left_eq[symmetric])
    also have "\<dots> = cy" unfolding m by (rule pred_mod[OF c(3)])
    finally have "(a + k + 1) mod 20 = cy" .
    note d this
    then have "nth_draw 20 cycle_source r k = c"
      unfolding nth_draw_def random_cell_cycle e c(1) by simp
    then show ?thesis ..
  qed
qed

subsection \<open>Placement has no retry cap\<close>

text \<open>
  C6, as stated, fails: on a 20 by 20 board with the single occupied cell (0, 0), and so with
  399 free cells, the loop never ends for the source that always draws 0.
\<close>

theorem placement_uncapped_counterexample:
  "in_bounds 20 \<lparr>x = 1, y = 0\<rparr> \<and> \<lparr>x = 1, y = 0\<rparr> \<notin> set [\<lparr>x = 0, y = 0\<rparr>]
   \<and> getRandomPosition 20 stuck_source 0 [\<lparr>x = 0, y = 0\<rparr>] = None"
  by (simp add: in_bounds_def getRandomPosition_None_iff nth_draw_def stuck_source_def
      random_cell_def)

text \<open>
  C6, amended. The placement routine is rejection sampling with no retry cap and no fallback
  scan: it returns the first attempt that is not occupied, having read two draws per attempt,
  and it never ends exactly when every attempt is occupied. Under a fair source it ends
  whenever the board has a free cell.
\<close>

theorem placement_rejection_sampling:
  "(getRandomPosition N rnd r ex = None \<longleftrightarrow> (\<forall>k. nth_draw N rnd r k \<in> set ex))
   \<and> (\<forall>p r'. getRandomPosition N rnd r ex = Some (p, r') \<longrightarrow>
        p \<notin> set ex
        \<and> (\<exists>k. p = nth_draw N rnd r k \<and> r' = r + 2 * Suc k
              \<and> (\<forall>j<k. nth_draw N rnd r j \<in> set ex)))
   \<and> (fair N rnd \<and> (\<exists>c. in_bounds N c \<and> c \<notin> set ex) \<longrightarrow>
        getRandomPosition N rnd r ex \<noteq> None)"
proof (intro conjI allI impI)
  show "getRandomPosition N rnd r ex = None \<longleftrightarrow> (\<forall>k. nth_draw N rnd r k \<in> set ex)"
    by (rule getRandomPosition_None_iff)
next
  fix p r' assume "getRandomPosition N rnd r ex = Some (p, r')"
  from getRandomPosition_Some[OF this]
  show "p \<notin> set ex" 
    and "\<exists>k. p = nth_draw N rnd r k \<and> r' = r + 2 * Suc k \<and> (\<forall>j<k. nth_draw N rnd r j \<in> set ex)"
    by auto
next
  assume "fair N rnd \<and> (\<exists>c. in_bounds N c \<and> c \<notin> set ex)"
  then obtain c where "fair N rnd" "in_bounds N c" "c \<notin> set ex" by blast
  then have "\<exists>k. nth_draw N rnd r k \<notin> set ex" unfolding fair_def by metis
  then show "getRandomPosition N rnd r ex \<noteq> None"
    by (simp add: getRandomPosition_None_iff)
qed

theorem placement_rejection_sampling_witness:
  "getRandomPosition 20 cycle_source 0 [\<lparr>x = 0, y = 0\<rparr>, \<lparr>x = 10, y = 10\<rparr>]
     = Some (\<lparr>x = 1, y = 0\<rparr>, 4)
   \<and> \<lparr>x = 1, y = 0\<rparr> \<notin> set [\<lparr>x = 0, y = 0\<rparr>, \<lparr>x = 10, y = 10\<rparr>]
   \<and> \<lparr>x = 1, y = 0\<rparr> = nth_draw 20 cycle_source 0 1
   \<and> nth_draw 20 cycle_source 0 0 \<in> set [\<lparr>x = 0, y = 0\<rparr>, \<lparr>x = 10, y = 10\<rparr>]
   \<and> fair 20 cycle_source \<and> in_bounds 20 \<lparr>x = 1, y = 0\<rparr>"
proof -
  have g: "getRandomPosition 20 cycle_source 0 [\<lparr>x = 0, y = 0\<rparr>, \<lparr>x = 10, y = 10\<rparr>]
     = Some (\<lparr>x = 1, y = 0\<rparr>, 4)"
    by (simp add: getRandomPosition.simps random_cell_cycle)
  from placement_rejection_sampling[of 20 cycle_source 0 "[\<lparr>x = 0, y = 0\<rparr>, \<lparr>x = 10, y = 10\<rparr>]"] g
  have "\<lparr>x = 1, y = 0\<rparr> \<notin> set [\<lparr>x = 0, y = 0\<rparr>, \<lparr>x = 10, y = 10\<rparr>]" by blast
  moreover have "\<lparr>x = 1, y = 0\<rparr> = nth_draw 20 cycle_source 0 1"
    "nth_draw 20 cycle_source 0 0 \<in> set [\<lparr>x = 0, y = 0\<rparr>, \<lparr>x = 10, y = 10\<rparr>]"
    by (simp_all add: nth_draw_def random_cell_cycle)
  moreover have "in_bounds 20 \<lparr>x = 1, y = 0\<rparr>" by (simp add: in_bounds_def)
  ultimately show ?thesis using g fair_cycle by blast
qed

subsection \<open>Reset\<close>

lemma resetLoop_done:
  "\<not> i < initialSeeds st \<Longrightarrow> resetLoop N rnd st i acc ex r = Some (acc, r)"
  by (subst resetLoop.simps) simp

lemma resetLoop_step:
  "i < initialSeeds st \<Longrightarrow> getRandomPosition N rnd r ex = Some (pos, r1) \<Longrightarrow>
   resetLoop N rnd st i acc ex r =
     resetLoop N rnd st (i + 1)
       (acc @ [\<lparr>id_seed = i, position = pos, type_seed = getNewSeedType st (rnd r1)\<rparr>])
       (ex @ [pos]) (r1 + 1)"
  by (subst resetLoop.simps) simp

lemma resetLoop_stuck:
  "i < initialSeeds st \<Longrightarrow> getRandomPosition N rnd r ex = None \<Longrightarrow>
   resetLoop N rnd st i acc ex r = None"
  by (subst resetLoop.simps) simp

lemma resetLoop_Some:
  assumes "resetLoop N rnd st i acc ex r = Some (res, r')" "i \<le> initialSeeds st" "distinct ex"
  shows "\<exists>ss. res = acc @ ss \<and> map id_seed ss = [i..<initialSeeds st]
            \<and> distinct (ex @ map position ss)
            \<and> (\<forall>s\<in>set ss. \<exists>k j. position s = nth_draw N rnd j k)"
  using assms
proof (induction N rnd st i acc ex r rule: resetLoop.induct)
  case (1 N rnd st i acc ex r)
  show ?case
  proof (cases "i < initialSeeds st")
    case False
    with "1.prems" have "res = acc" "i = initialSeeds st"
      by (simp_all add: resetLoop_done)
    with "1.prems"(3) show ?thesis by simp
  next
    case True
    have "getRandomPosition N rnd r ex \<noteq> None"
      using "1.prems"(1) resetLoop_stuck[OF True] by fastforce
    then obtain pos r1 where
      g: "getRandomPosition N rnd r ex = Some (pos, r1)" by auto
    have rec: "resetLoop N rnd st (i + 1)
             (acc @ [\<lparr>id_seed = i, position = pos, type_seed = getNewSeedType st (rnd r1)\<rparr>])
             (ex @ [pos]) (r1 + 1) = Some (res, r')"
      using "1.prems"(1) resetLoop_step[OF True g] by simp
    from getRandomPosition_Some[OF g] obtain k where
      k: "pos = nth_draw N rnd r k" "pos \<notin> set ex"
      by auto
    have d: "distinct (ex @ [pos])" using "1.prems"(3) k(2) by simp
    from "1.IH"[OF True g refl rec _ d] True obtain ss where
      ss: "res = (acc @ [\<lparr>id_seed = i, position = pos, type_seed = getNewSeedType st (rnd r1)\<rparr>]) @ ss"
        "map id_seed ss = [i + 1..<initialSeeds st]"
        "distinct ((ex @ [pos]) @ map position ss)"
        "\<forall>s\<in>set ss. \<exists>k j. position s = nth_draw N rnd j k"
      by auto
    let ?s = "\<lparr>id_seed = i, position = pos, type_seed = getNewSeedType st (rnd r1)\<rparr>"
    have "res = acc @ (?s # ss)" using ss(1) by simp
    moreover have "map id_seed (?s # ss) = [i..<initialSeeds st]"
      using ss(2) True by (simp add: upt_conv_Cons)
    moreover have "distinct (ex @ map position (?s # ss))" using ss(3) by simp
    moreover have "\<forall>s\<in>set (?s # ss). \<exists>k j. position s = nth_draw N rnd j k"
      using ss(4) k(1) by auto
    ultimately show ?thesis by blast
  qed
qed

lemma resetLoop_terminates:
  assumes "fair N rnd" "0 < N" "int (length ex) + int (initialSeeds st - i) \<le> N * N"
  shows "resetLoop N rnd st i acc ex r \<noteq> None"
  using assms
proof (induction N rnd st i acc ex r rule: resetLoop.induct)
  case (1 N rnd st i acc ex r)
  show ?case
  proof (cases "i < initialSeeds st")
    case False
    then show ?thesis by (simp add: resetLoop_done)
  next
    case True
    with "1.prems"(3) have "int (length ex) < N * N" by linarith
    from fair_terminates[OF "1.prems"(1,2) this] obtain pos r1 where
      g: "getRandomPosition N rnd r ex = Some (pos, r1)" by blast
    have "int (length (ex @ [pos])) + int (initialSeeds st - (i + 1)) \<le> N * N"
      using "1.prems"(3) True by simp
    from "1.IH"[OF True g refl "1.prems"(1,2) this] show ?thesis
      by (simp add: resetLoop_step[OF True g])
  qed
qed

lemma resetGame_inv:
  assumes "resetGame N rnd st r = Some (b, r')"
  shows "board_inv b \<and> birdPosition b = \<lparr>x = N div 2, y = N div 2\<rparr>
     \<and> length (seeds b) = initialSeeds st"
proof -
  let ?c = "\<lparr>x = N div 2, y = N div 2\<rparr>"
  from assms obtain res where
    res: "resetLoop N rnd st 0 [] [?c] r = Some (res, r')"
    and b: "b = \<lparr>birdPosition = ?c, seeds = res, seedIdCounter = initialSeeds st\<rparr>"
    by (auto simp: resetGame_def Let_def split: option.splits)
  from resetLoop_Some[OF res] have
    ids: "map id_seed res = [0..<initialSeeds st]"
    and dist: "distinct (?c # map position res)"
    by auto
  from ids have len: "length res = initialSeeds st"
    by (metis length_map length_upt minus_nat.diff_0)
  have "\<forall>s\<in>set res. id_seed s < initialSeeds st"
  proof
    fix s assume "s \<in> set res"
    then have "id_seed s \<in> set (map id_seed res)" by simp
    then show "id_seed s < initialSeeds st" unfolding ids by simp
  qed
  moreover have "distinct (map id_seed res)" unfolding ids by simp
  ultimately show ?thesis using b dist len by (simp add: board_inv_def)
qed

lemma centre_in_bounds: "0 < N \<Longrightarrow> in_bounds N \<lparr>x = N div 2, y = N div 2\<rparr>"
  by (simp add: in_bounds_def)

text \<open>
  C5. For every difficulty profile, on a board of positive size and with draws in [0, 1): when
  \<^verbatim>\<open>resetGame\<close> returns, the bird is on the centre cell, there are exactly
  \<^verbatim>\<open>initialSeeds\<close> seeds, every seed is on the board, seed cells are pairwise different and
  different from the bird's, the ids are 0, 1, ... in order and the id counter is
  \<^verbatim>\<open>initialSeeds\<close>. It does return when the source is fair and the board has more cells than
  the profile has seeds.
\<close>

theorem reset_game:
  assumes "0 < N" "unit_draws rnd"
  shows "(\<forall>b r'. resetGame N rnd (difficultySettings d) r = Some (b, r') \<longrightarrow>
            birdPosition b = \<lparr>x = N div 2, y = N div 2\<rparr>
            \<and> length (seeds b) = initialSeeds (difficultySettings d)
            \<and> (\<forall>s\<in>set (seeds b). in_bounds N (position s))
            \<and> distinct (map position (seeds b))
            \<and> birdPosition b \<notin> set (map position (seeds b))
            \<and> map id_seed (seeds b) = [0..<initialSeeds (difficultySettings d)]
            \<and> seedIdCounter b = initialSeeds (difficultySettings d))
       \<and> (fair N rnd \<and> int (initialSeeds (difficultySettings d)) < N * N \<longrightarrow>
            resetGame N rnd (difficultySettings d) r \<noteq> None)"
proof (intro conjI allI impI)
  fix b r'
  let ?st = "difficultySettings d"
  let ?c = "\<lparr>x = N div 2, y = N div 2\<rparr>"
  assume "resetGame N rnd ?st r = Some (b, r')"
  then obtain res where
    res: "resetLoop N rnd ?st 0 [] [?c] r = Some (res, r')"
    and b: "b = \<lparr>birdPosition = ?c, seeds = res, seedIdCounter = initialSeeds ?st\<rparr>"
    by (auto simp: resetGame_def Let_def split: option.splits)
  from resetLoop_Some[OF res] have
    ids: "map id_seed res = [0..<initialSeeds ?st]"
    and dist: "distinct (?c # map position res)"
    and draws: "\<forall>s\<in>set res. \<exists>k j. position s = nth_draw N rnd j k"
    by auto
  from ids have "length res = initialSeeds ?st"
    by (metis length_map length_upt minus_nat.diff_0)
  with b ids dist show "birdPosition b = ?c"
    "length (seeds b) = initialSeeds ?st"
    "distinct (map position (seeds b))"
    "birdPosition b \<notin> set (map position (seeds b))"
    "map id_seed (seeds b) = [0..<initialSeeds ?st]"
    "seedIdCounter b = initialSeeds ?st"
    by simp_all
  show "\<forall>s\<in>set (seeds b). in_bounds N (position s)"
    using draws b nth_draw_in_bounds[OF assms(2,1)] by auto
next
  let ?st = "difficultySettings d"
  assume "fair N rnd \<and> int (initialSeeds ?st) < N * N"
  then have f: "fair N rnd" and "int (length [\<lparr>x = N div 2, y = N div 2\<rparr>]) + int (initialSeeds ?st - 0) \<le> N * N"
    by simp_all
  from resetLoop_terminates[OF f assms(1) this(2)]
  show "resetGame N rnd ?st r \<noteq> None"
    by (auto simp: resetGame_def Let_def split: option.splits)
qed

lemma start_state_reset:
  "resetGame 20 cycle_source (difficultySettings easy) 0 = Some start_state"
proof -
  have "resetGame 20 cycle_source (difficultySettings easy) 0 \<noteq> None" by code_simp
  then show ?thesis by (auto simp: start_state_def)
qed

theorem reset_game_witness:
  "0 < (20::int) \<and> unit_draws cycle_source \<and> fair 20 cycle_source
   \<and> int (initialSeeds (difficultySettings easy)) < 20 * 20
   \<and> resetGame 20 cycle_source (difficultySettings easy) 0 = Some start_state
   \<and> birdPosition (fst start_state) = \<lparr>x = 10, y = 10\<rparr>
   \<and> length (seeds (fst start_state)) = 30
   \<and> list_all (\<lambda>s. in_bounds 20 (position s)) (seeds (fst start_state))
   \<and> distinct (map position (seeds (fst start_state)))
   \<and> birdPosition (fst start_state) \<notin> set (map position (seeds (fst start_state)))
   \<and> map id_seed (seeds (fst start_state)) = [0..<30]
   \<and> seedIdCounter (fst start_state) = 30"
proof -
  have r: "resetGame 20 cycle_source (difficultySettings easy) 0
      = Some (fst start_state, snd start_state)"
    using start_state_reset by simp
  have "(0::int) < 20" by simp
  from reset_game[OF this unit_draws_cycle, of easy 0] r
  have "birdPosition (fst start_state) = \<lparr>x = 20 div 2, y = 20 div 2\<rparr>
      \<and> length (seeds (fst start_state)) = initialSeeds (difficultySettings easy)
      \<and> (\<forall>s\<in>set (seeds (fst start_state)). in_bounds 20 (position s))
      \<and> distinct (map position (seeds (fst start_state)))
      \<and> birdPosition (fst start_state) \<notin> set (map position (seeds (fst start_state)))
      \<and> map id_seed (seeds (fst start_state)) = [0..<initialSeeds (difficultySettings easy)]
      \<and> seedIdCounter (fst start_state) = initialSeeds (difficultySettings easy)"
    by blast
  then have f: "birdPosition (fst start_state) = \<lparr>x = 10, y = 10\<rparr>"
    "length (seeds (fst start_state)) = 30"
    "list_all (\<lambda>s. in_bounds 20 (position s)) (seeds (fst start_state))"
    "distinct (map position (seeds (fst start_state)))"
    "birdPosition (fst start_state) \<notin> set (map position (seeds (fst start_state)))"
    "map id_seed (seeds (fst start_state)) = [0..<30]"
    "seedIdCounter (fst start_state) = 30"
    by (auto simp: list_all_iff)
  have i: "int (initialSeeds (difficultySettings easy)) < 20 * 20" by simp
  have z: "0 < (20::int)" by simp
  show ?thesis
    using z unit_draws_cycle fair_cycle i start_state_reset f
    by (intro conjI)
qed

subsection \<open>Key presses\<close>

lemma handleKeyDown_cases:
  assumes "handleKeyDown N rnd st key b r = Some (b', sigs, r')"
  obtains
    (ignored) "keySwitch N key (birdPosition b) = None" "b' = b" "sigs = []" "r' = r"
  | (moved) newPos where "keySwitch N key (birdPosition b) = Some newPos"
      "\<forall>s\<in>set (seeds b). position s \<noteq> newPos"
      "b' = b\<lparr>birdPosition := newPos\<rparr>" "sigs = []" "r' = r"
  | (hazard) newPos k where "keySwitch N key (birdPosition b) = Some newPos"
      "k < length (seeds b)" "position (seeds b ! k) = newPos"
      "type_seed (seeds b ! k) = Hard" "b' = b" "sigs = [onGameOver]" "r' = r"
  | (collected) newPos k p r1 where "keySwitch N key (birdPosition b) = Some newPos"
      "k < length (seeds b)" "position (seeds b ! k) = newPos"
      "type_seed (seeds b ! k) \<noteq> Hard"
      "getRandomPosition N rnd r
         (newPos # map position (take k (seeds b) @ drop (Suc k) (seeds b))) = Some (p, r1)"
      "b' = b\<lparr>birdPosition := newPos,
              seeds := (take k (seeds b) @ drop (Suc k) (seeds b))
                @ [\<lparr>id_seed = seedIdCounter b, position = p,
                    type_seed = getNewSeedType st (rnd r1)\<rparr>],
              seedIdCounter := seedIdCounter b + 1\<rparr>"
      "sigs = [if type_seed (seeds b ! k) = Coin then onCoinCollect else onScore]"
      "r' = r1 + 1"
proof (cases "keySwitch N key (birdPosition b)")
  case None
  with assms show ?thesis by (intro ignored) (auto simp: handleKeyDown_def)
next
  case (Some newPos)
  let ?P = "\<lambda>seed. x (position seed) = x newPos \<and> y (position seed) = y newPos"
  show ?thesis
  proof (cases "findIndex ?P (seeds b)")
    case None
    then have "\<forall>s\<in>set (seeds b). position s \<noteq> newPos"
      by (auto simp: findIndex_None_iff)
    with assms Some None show ?thesis
      by (intro moved[of newPos]) (auto simp: handleKeyDown_def)
  next
    case k: (Some k)
    from findIndex_Some[OF k] have kl: "k < length (seeds b)"
      and kp: "position (seeds b ! k) = newPos"
      by (auto simp: Position_eq_iff)
    show ?thesis
    proof (cases "type_seed (seeds b ! k) = Hard")
      case True
      with assms Some k kl kp show ?thesis
        by (intro hazard[of newPos k]) (auto simp: handleKeyDown_def)
    next
      case False
      with assms Some k obtain p r1 where
        g: "getRandomPosition N rnd r
         (newPos # map position (take k (seeds b) @ drop (Suc k) (seeds b))) = Some (p, r1)"
        by (auto simp: handleKeyDown_def filter_index_remove split: option.splits)
      with assms Some k False kl kp show ?thesis
        by (intro collected[of newPos k p r1])
          (auto simp: handleKeyDown_def filter_index_remove)
    qed
  qed
qed

lemma keySwitch_in_bounds:
  assumes "keySwitch N key p = Some q" "0 < N" "in_bounds N p"
  shows "in_bounds N q"
  using assms by (auto simp: keySwitch_def in_bounds_def split: if_splits)

lemma handleKeyDown_in_bounds:
  assumes "handleKeyDown N rnd st key b r = Some (b', sigs, r')" "0 < N"
    "in_bounds N (birdPosition b)"
  shows "in_bounds N (birdPosition b')"
  using assms(1)
proof (cases rule: handleKeyDown_cases)
  case ignored
  with assms(3) show ?thesis by simp
next
  case (moved newPos)
  with keySwitch_in_bounds[OF moved(1) assms(2,3)] show ?thesis by simp
next
  case (hazard newPos k)
  with assms(3) show ?thesis by simp
next
  case (collected newPos k p r1)
  with keySwitch_in_bounds[OF collected(1) assms(2,3)] show ?thesis by simp
qed

lemma handleKeyDown_inv:
  assumes "handleKeyDown N rnd st key b r = Some (b', sigs, r')" "board_inv b"
  shows "board_inv b' \<and> length (seeds b') = length (seeds b)"
  using assms(1)
proof (cases rule: handleKeyDown_cases)
  case ignored
  with assms(2) show ?thesis by simp
next
  case (moved newPos)
  with assms(2) show ?thesis by (auto simp: board_inv_def)
next
  case (hazard newPos k)
  with assms(2) show ?thesis by simp
next
  case (collected newPos k p r1)
  let ?rest = "take k (seeds b) @ drop (Suc k) (seeds b)"
  from assms(2) have dp: "distinct (map position (seeds b))"
    and di: "distinct (map id_seed (seeds b))"
    and lt: "\<forall>s\<in>set (seeds b). id_seed s < seedIdCounter b"
    by (simp_all add: board_inv_def)
  from getRandomPosition_Some[OF collected(5)] have
    p: "p \<noteq> newPos" "p \<notin> position ` set ?rest"
    by auto
  have np: "newPos \<notin> position ` set ?rest"
    using nth_not_in_remove_nth[OF dp collected(2)] collected(3) by simp
  have sub: "set ?rest \<subseteq> set (seeds b)" by (rule set_remove_nth)
  have "distinct (newPos # map position (?rest @ [\<lparr>id_seed = seedIdCounter b, position = p,
                    type_seed = getNewSeedType st (rnd r1)\<rparr>]))"
    using p np distinct_remove_nth[OF dp, of k] by auto
  moreover have "distinct (map id_seed (?rest @ [\<lparr>id_seed = seedIdCounter b, position = p,
                    type_seed = getNewSeedType st (rnd r1)\<rparr>]))"
    using distinct_remove_nth[OF di, of k] lt sub by fastforce
  moreover have "\<forall>s\<in>set (?rest @ [\<lparr>id_seed = seedIdCounter b, position = p,
                    type_seed = getNewSeedType st (rnd r1)\<rparr>]). id_seed s < seedIdCounter b + 1"
    using lt sub by fastforce
  moreover have "length (?rest @ [\<lparr>id_seed = seedIdCounter b, position = p,
                    type_seed = getNewSeedType st (rnd r1)\<rparr>]) = length (seeds b)"
    using collected(2) by simp
  ultimately show ?thesis
    unfolding collected(6) board_inv_def by simp
qed

lemma moves_inv:
  assumes "moves N rnd st keys c = Some c'" "board_inv (fst c)"
  shows "board_inv (fst c') \<and> length (seeds (fst c')) = length (seeds (fst c))"
  using assms
proof (induction keys arbitrary: c)
  case Nil
  then show ?case by simp
next
  case (Cons key keys)
  from Cons.prems(1) obtain b' sigs r' where
    h: "handleKeyDown N rnd st key (fst c) (snd c) = Some (b', sigs, r')"
    and m: "moves N rnd st keys (b', r') = Some c'"
    by (auto split: option.splits)
  from handleKeyDown_inv[OF h Cons.prems(2)] Cons.IH[OF m] show ?case by simp
qed

lemma moves_in_bounds:
  assumes "moves N rnd st keys c = Some c'" "0 < N" "in_bounds N (birdPosition (fst c))"
  shows "in_bounds N (birdPosition (fst c'))"
  using assms
proof (induction keys arbitrary: c)
  case Nil
  then show ?case by simp
next
  case (Cons key keys)
  from Cons.prems(1) obtain b' sigs r' where
    h: "handleKeyDown N rnd st key (fst c) (snd c) = Some (b', sigs, r')"
    and m: "moves N rnd st keys (b', r') = Some c'"
    by (auto split: option.splits)
  from handleKeyDown_in_bounds[OF h Cons.prems(2,3)] Cons.IH[OF m Cons.prems(2)]
  show ?case by simp
qed

text \<open>
  Every board reached from a reset by key presses satisfies the invariant and has as many seeds
  as the profile says.
\<close>

lemma reached_board_inv:
  assumes "resetGame N rnd st r0 = Some c0" "moves N rnd st keys c0 = Some (b, r)"
  shows "board_inv b \<and> length (seeds b) = initialSeeds st"
proof -
  obtain b0 r1 where c0: "c0 = (b0, r1)" by (cases c0)
  from resetGame_inv[OF assms(1)[unfolded c0]]
  have "board_inv (fst c0)" "length (seeds (fst c0)) = initialSeeds st"
    by (simp_all add: c0)
  with moves_inv[OF assms(2)] show ?thesis by simp
qed

lemma boundary_move:
  assumes "board_inv b" "keySwitch N key (birdPosition b) = Some (birdPosition b)"
  shows "handleKeyDown N rnd st key b r = Some (b, [], r)"
proof -
  from assms(1) have "\<forall>s\<in>set (seeds b). position s \<noteq> birdPosition b"
    by (auto simp: board_inv_def intro: rev_image_eqI)
  then have "findIndex (\<lambda>seed. x (position seed) = x (birdPosition b)
      \<and> y (position seed) = y (birdPosition b)) (seeds b) = None"
    by (auto simp: findIndex_None_iff Position_eq_iff)
  with assms(2) show ?thesis by (simp add: handleKeyDown_def)
qed

text \<open>
  C1. In every state reached from a reset by any sequence of key presses, on a board of
  positive size, the bird is on the board, and it still is after one more key press; a press
  toward a boundary the bird touches leaves the board state as it is and calls no callback.
\<close>

theorem bird_stays_on_board:
  assumes "0 < N" "resetGame N rnd st r0 = Some c0" "moves N rnd st keys c0 = Some (b, r)"
  shows "in_bounds N (birdPosition b)
     \<and> (\<forall>key b' sigs r'. handleKeyDown N rnd st key b r = Some (b', sigs, r') \<longrightarrow>
          in_bounds N (birdPosition b'))
     \<and> (y (birdPosition b) = 0 \<longrightarrow> handleKeyDown N rnd st ''ArrowUp'' b r = Some (b, [], r))
     \<and> (y (birdPosition b) = N - 1 \<longrightarrow>
          handleKeyDown N rnd st ''ArrowDown'' b r = Some (b, [], r))
     \<and> (x (birdPosition b) = 0 \<longrightarrow> handleKeyDown N rnd st ''ArrowLeft'' b r = Some (b, [], r))
     \<and> (x (birdPosition b) = N - 1 \<longrightarrow>
          handleKeyDown N rnd st ''ArrowRight'' b r = Some (b, [], r))"
proof -
  obtain b0 r1 where c0: "c0 = (b0, r1)" by (cases c0)
  from resetGame_inv[OF assms(2)[unfolded c0]] centre_in_bounds[OF assms(1)]
  have i0: "board_inv (fst c0)" "in_bounds N (birdPosition (fst c0))"
    by (simp_all add: c0)
  from moves_inv[OF assms(3) i0(1)] moves_in_bounds[OF assms(3,1) i0(2)]
  have inv: "board_inv b" and inb: "in_bounds N (birdPosition b)" by simp_all
  have step: "\<forall>key b' sigs r'. handleKeyDown N rnd st key b r = Some (b', sigs, r') \<longrightarrow>
          in_bounds N (birdPosition b')"
    using handleKeyDown_in_bounds[OF _ assms(1) inb] by blast
  have up: "handleKeyDown N rnd st ''ArrowUp'' b r = Some (b, [], r)" if "y (birdPosition b) = 0"
    using that by (intro boundary_move[OF inv]) (simp add: keySwitch_def)
  have down: "handleKeyDown N rnd st ''ArrowDown'' b r = Some (b, [], r)"
    if "y (birdPosition b) = N - 1"
    using that by (intro boundary_move[OF inv]) (simp add: keySwitch_def)
  have left: "handleKeyDown N rnd st ''ArrowLeft'' b r = Some (b, [], r)"
    if "x (birdPosition b) = 0"
    using that by (intro boundary_move[OF inv]) (simp add: keySwitch_def)
  have right: "handleKeyDown N rnd st ''ArrowRight'' b r = Some (b, [], r)"
    if "x (birdPosition b) = N - 1"
    using that by (intro boundary_move[OF inv]) (simp add: keySwitch_def)
  from inb step up down left right show ?thesis by blast
qed

lemma top_state_moves:
  "moves 20 cycle_source (difficultySettings easy) (replicate 10 ''ArrowUp'') start_state
     = Some top_state"
proof -
  have "moves 20 cycle_source (difficultySettings easy) (replicate 10 ''ArrowUp'') start_state
     \<noteq> None" by code_simp
  then show ?thesis by (auto simp: top_state_def)
qed

lemma top_state_bird: "birdPosition (fst top_state) = \<lparr>x = 10, y = 0\<rparr>"
  by code_simp

theorem bird_stays_on_board_witness:
  "0 < (20::int)
   \<and> resetGame 20 cycle_source (difficultySettings easy) 0 = Some start_state
   \<and> moves 20 cycle_source (difficultySettings easy) (replicate 10 ''ArrowUp'') start_state
       = Some top_state
   \<and> birdPosition (fst top_state) = \<lparr>x = 10, y = 0\<rparr>
   \<and> in_bounds 20 (birdPosition (fst top_state))
   \<and> handleKeyDown 20 cycle_source (difficultySettings easy) ''ArrowUp''
        (fst top_state) (snd top_state) = Some (fst top_state, [], snd top_state)"
proof -
  have m: "moves 20 cycle_source (difficultySettings easy) (replicate 10 ''ArrowUp'') start_state
       = Some (fst top_state, snd top_state)"
    using top_state_moves by simp
  from bird_stays_on_board[OF _ start_state_reset m] top_state_bird
    start_state_reset top_state_moves
  show ?thesis by simp
qed

subsection \<open>Moving into a hard seed\<close>

text \<open>
  C2. When the cell a move leads to holds a hard seed, \<^verbatim>\<open>handleKeyDown\<close> returns the board it
  was given (bird, seed list and id counter unchanged), calls \<^verbatim>\<open>onGameOver\<close> exactly once and
  nothing else, and reads no draw.
\<close>

theorem hazard_move:
  assumes "keySwitch N key (birdPosition b) = Some newPos"
    and "s \<in> set (seeds b)" and "position s = newPos" and "type_seed s = Hard"
    and "distinct (map position (seeds b))"
  shows "handleKeyDown N rnd st key b r = Some (b, [onGameOver], r)"
proof -
  from findIndex_unique[OF assms(2,5)] assms(3) obtain k where
    "findIndex (\<lambda>seed. x (position seed) = x newPos \<and> y (position seed) = y newPos) (seeds b)
       = Some k"
    "seeds b ! k = s"
    by auto
  with assms(1,4) show ?thesis
    by (simp add: handleKeyDown_def)
qed

theorem hazard_move_witness:
  "keySwitch 20 ''ArrowUp'' (birdPosition hazard_board) = Some \<lparr>x = 10, y = 9\<rparr>
   \<and> \<lparr>id_seed = 1, position = \<lparr>x = 10, y = 9\<rparr>, type_seed = Hard\<rparr> \<in> set (seeds hazard_board)
   \<and> distinct (map position (seeds hazard_board))
   \<and> handleKeyDown 20 stuck_source (difficultySettings easy) ''ArrowUp'' hazard_board 0
       = Some (hazard_board, [onGameOver], 0)"
proof -
  have k: "keySwitch 20 ''ArrowUp'' (birdPosition hazard_board) = Some \<lparr>x = 10, y = 9\<rparr>"
    by (simp add: keySwitch_def hazard_board_def)
  have m: "\<lparr>id_seed = 1, position = \<lparr>x = 10, y = 9\<rparr>, type_seed = Hard\<rparr>
             \<in> set (seeds hazard_board)"
    by (simp add: hazard_board_def)
  have d: "distinct (map position (seeds hazard_board))"
    by (simp add: hazard_board_def)
  from hazard_move[OF k m _ _ d, of stuck_source "difficultySettings easy" 0] k m d
  show ?thesis by simp
qed

subsection \<open>Moving into a good seed\<close>

lemma collect_at:
  assumes "keySwitch N key (birdPosition b) = Some newPos"
    and "findIndex (\<lambda>seed. x (position seed) = x newPos \<and> y (position seed) = y newPos)
           (seeds b) = Some k"
    and "type_seed (seeds b ! k) \<noteq> Hard"
    and "getRandomPosition N rnd r
           (newPos # map position (take k (seeds b) @ drop (Suc k) (seeds b))) = Some (p, r1)"
  shows "handleKeyDown N rnd st key b r =
     Some (b\<lparr>birdPosition := newPos,
              seeds := (take k (seeds b) @ drop (Suc k) (seeds b))
                @ [\<lparr>id_seed = seedIdCounter b, position = p,
                    type_seed = getNewSeedType st (rnd r1)\<rparr>],
              seedIdCounter := seedIdCounter b + 1\<rparr>,
           [if type_seed (seeds b ! k) = Coin then onCoinCollect else onScore], r1 + 1)"
  using assms by (simp add: handleKeyDown_def filter_index_remove)

lemma collect_move:
  assumes ks: "keySwitch N key (birdPosition b) = Some newPos"
    and s: "s \<in> set (seeds b)" "position s = newPos" "type_seed s \<noteq> Hard"
    and inv: "board_inv b"
    and fair: "fair N rnd" "0 < N" "int (length (seeds b)) < N * N"
  shows "\<exists>k p r1. k < length (seeds b) \<and> seeds b ! k = s
     \<and> findIndex (\<lambda>seed. x (position seed) = x newPos \<and> y (position seed) = y newPos)
           (seeds b) = Some k
     \<and> take k (seeds b) @ drop (Suc k) (seeds b) = remove1 s (seeds b)
     \<and> getRandomPosition N rnd r (newPos # map position (remove1 s (seeds b))) = Some (p, r1)
     \<and> handleKeyDown N rnd st key b r =
         Some (b\<lparr>birdPosition := newPos,
                  seeds := remove1 s (seeds b)
                    @ [\<lparr>id_seed = seedIdCounter b, position = p,
                        type_seed = getNewSeedType st (rnd r1)\<rparr>],
                  seedIdCounter := seedIdCounter b + 1\<rparr>,
               [if type_seed s = Coin then onCoinCollect else onScore], r1 + 1)
     \<and> p \<noteq> newPos \<and> p \<notin> position ` set (remove1 s (seeds b))
     \<and> Suc (length (remove1 s (seeds b))) = length (seeds b)
     \<and> id_seed s \<notin> id_seed ` set (remove1 s (seeds b))
     \<and> id_seed s \<noteq> seedIdCounter b"
proof -
  from inv have dp: "distinct (map position (seeds b))"
    and di: "distinct (map id_seed (seeds b))"
    and lt: "\<forall>s\<in>set (seeds b). id_seed s < seedIdCounter b"
    by (simp_all add: board_inv_def)
  from di have ds: "distinct (seeds b)" by (simp add: distinct_map)
  from findIndex_unique[OF s(1) dp] s(2) obtain k where
    k: "findIndex (\<lambda>seed. x (position seed) = x newPos \<and> y (position seed) = y newPos)
           (seeds b) = Some k" "seeds b ! k = s"
    by auto
  from findIndex_Some[OF k(1)] have kl: "k < length (seeds b)" by simp
  have rest: "take k (seeds b) @ drop (Suc k) (seeds b) = remove1 s (seeds b)"
    using remove_nth_remove1[OF ds kl] k(2) by simp
  have len: "Suc (length (remove1 s (seeds b))) = length (seeds b)"
    using s(1) by (simp add: length_remove1) (metis length_pos_if_in_set Suc_pred)
  then have "int (length (newPos # map position (remove1 s (seeds b)))) < N * N"
    using fair(3) by simp
  from fair_terminates[OF fair(1,2) this] obtain p r1 where
    g: "getRandomPosition N rnd r (newPos # map position (remove1 s (seeds b))) = Some (p, r1)"
    by blast
  from getRandomPosition_Some[OF g] have
    p: "p \<noteq> newPos" "p \<notin> position ` set (remove1 s (seeds b))"
    by auto
  have h: "handleKeyDown N rnd st key b r =
         Some (b\<lparr>birdPosition := newPos,
                  seeds := remove1 s (seeds b)
                    @ [\<lparr>id_seed = seedIdCounter b, position = p,
                        type_seed = getNewSeedType st (rnd r1)\<rparr>],
                  seedIdCounter := seedIdCounter b + 1\<rparr>,
               [if type_seed s = Coin then onCoinCollect else onScore], r1 + 1)"
    using collect_at[OF ks k(1), where rnd = rnd and r = r and p = p and ?r1.0 = r1 and st = st]
      s(3) g k(2) rest by simp
  have "id_seed s \<notin> id_seed ` set (remove1 s (seeds b))"
    using nth_not_in_remove_nth[OF di kl] k(2) rest by simp
  moreover have "id_seed s \<noteq> seedIdCounter b" using lt s(1) by auto
  ultimately show ?thesis using k kl rest g h p len by blast
qed

text \<open>
  C3. When the cell a move leads to holds a good seed \<open>s\<close>, on a board that satisfies the
  invariant and has more cells than seeds, with a fair source: \<^verbatim>\<open>handleKeyDown\<close> returns; the
  bird is on that cell; the seed list is the old one without \<open>s\<close> followed by one new seed, so
  of the same length; \<^verbatim>\<open>onScore\<close> is called exactly once and nothing else; the new seed's cell
  is neither the bird's nor a remaining seed's; the new seed's id is the old counter value and
  the counter is one more; and the id of \<open>s\<close> is no seed's id any more.
\<close>

theorem benign_move:
  assumes "keySwitch N key (birdPosition b) = Some newPos"
    and "s \<in> set (seeds b)" and "position s = newPos" and "type_seed s = Good"
    and "board_inv b"
    and "fair N rnd" and "0 < N" and "int (length (seeds b)) < N * N"
  shows "\<exists>p t r'.
     handleKeyDown N rnd st key b r =
       Some (\<lparr>birdPosition = position s,
              seeds = remove1 s (seeds b)
                @ [\<lparr>id_seed = seedIdCounter b, position = p, type_seed = t\<rparr>],
              seedIdCounter = seedIdCounter b + 1\<rparr>, [onScore], r')
     \<and> length (remove1 s (seeds b)
                @ [\<lparr>id_seed = seedIdCounter b, position = p, type_seed = t\<rparr>])
         = length (seeds b)
     \<and> s \<notin> set (remove1 s (seeds b))
     \<and> p \<noteq> position s
     \<and> p \<notin> position ` set (remove1 s (seeds b))
     \<and> id_seed s \<notin> id_seed ` set (remove1 s (seeds b)
                @ [\<lparr>id_seed = seedIdCounter b, position = p, type_seed = t\<rparr>])"
proof -
  have nh: "type_seed s \<noteq> Hard" using assms(4) by simp
  from collect_move[OF assms(1,2,3) nh assms(5,6,7,8), where st = st and r = r] obtain p r1 where
    c: "handleKeyDown N rnd st key b r =
         Some (b\<lparr>birdPosition := newPos,
                  seeds := remove1 s (seeds b)
                    @ [\<lparr>id_seed = seedIdCounter b, position = p,
                        type_seed = getNewSeedType st (rnd r1)\<rparr>],
                  seedIdCounter := seedIdCounter b + 1\<rparr>,
               [if type_seed s = Coin then onCoinCollect else onScore], r1 + 1)"
      "p \<noteq> newPos" "p \<notin> position ` set (remove1 s (seeds b))"
      "Suc (length (remove1 s (seeds b))) = length (seeds b)"
      "id_seed s \<notin> id_seed ` set (remove1 s (seeds b))"
      "id_seed s \<noteq> seedIdCounter b"
    by blast
  have gone: "s \<notin> set (remove1 s (seeds b))" using c(5) by blast
  have eq: "b\<lparr>birdPosition := newPos,
                  seeds := remove1 s (seeds b)
                    @ [\<lparr>id_seed = seedIdCounter b, position = p,
                        type_seed = getNewSeedType st (rnd r1)\<rparr>],
                  seedIdCounter := seedIdCounter b + 1\<rparr>
      = \<lparr>birdPosition = position s,
              seeds = remove1 s (seeds b)
                @ [\<lparr>id_seed = seedIdCounter b, position = p,
                    type_seed = getNewSeedType st (rnd r1)\<rparr>],
              seedIdCounter = seedIdCounter b + 1\<rparr>"
    using assms(3) by simp
  show ?thesis
    apply (rule exI[of _ p], rule exI[of _ "getNewSeedType st (rnd r1)"], rule exI[of _ "r1 + 1"])
    using c gone assms(3,4) unfolding eq by simp
qed

lemma board_inv_example: "board_inv example_board"
  by (simp add: board_inv_def example_board_def)

theorem benign_move_witness:
  "keySwitch 20 ''ArrowUp'' (birdPosition example_board) = Some \<lparr>x = 10, y = 9\<rparr>
   \<and> \<lparr>id_seed = 0, position = \<lparr>x = 10, y = 9\<rparr>, type_seed = Good\<rparr> \<in> set (seeds example_board)
   \<and> board_inv example_board \<and> fair 20 cycle_source
   \<and> int (length (seeds example_board)) < 20 * 20
   \<and> handleKeyDown 20 cycle_source (difficultySettings easy) ''ArrowUp'' example_board 0
       = Some (\<lparr>birdPosition = \<lparr>x = 10, y = 9\<rparr>,
                seeds = [\<lparr>id_seed = 1, position = \<lparr>x = 3, y = 4\<rparr>, type_seed = Hard\<rparr>,
                         \<lparr>id_seed = 2, position = \<lparr>x = 11, y = 10\<rparr>, type_seed = Coin\<rparr>,
                         \<lparr>id_seed = 3, position = \<lparr>x = 0, y = 0\<rparr>, type_seed = Hard\<rparr>],
                seedIdCounter = 4\<rparr>, [onScore], 3)"
proof -
  let ?s = "\<lparr>id_seed = 0, position = \<lparr>x = 10, y = 9\<rparr>, type_seed = Good\<rparr>"
  have k: "keySwitch 20 ''ArrowUp'' (birdPosition example_board) = Some \<lparr>x = 10, y = 9\<rparr>"
    by (simp add: keySwitch_def example_board_def)
  have m: "?s \<in> set (seeds example_board)" by (simp add: example_board_def)
  have l: "int (length (seeds example_board)) < 20 * 20" by (simp add: example_board_def)
  from benign_move[OF k m _ _ board_inv_example fair_cycle _ l,
      where st = "difficultySettings easy" and r = 0]
  obtain p t r' where
    h: "handleKeyDown 20 cycle_source (difficultySettings easy) ''ArrowUp'' example_board 0 =
       Some (\<lparr>birdPosition = position ?s,
              seeds = remove1 ?s (seeds example_board)
                @ [\<lparr>id_seed = seedIdCounter example_board, position = p, type_seed = t\<rparr>],
              seedIdCounter = seedIdCounter example_board + 1\<rparr>, [onScore], r')"
    by auto
  have g: "getRandomPosition 20 cycle_source 0
       [\<lparr>x = 10, y = 9\<rparr>, \<lparr>x = 3, y = 4\<rparr>, \<lparr>x = 11, y = 10\<rparr>] = Some (\<lparr>x = 0, y = 0\<rparr>, 2)"
    by (simp add: getRandomPosition.simps random_cell_cycle)
  have e: "handleKeyDown 20 cycle_source (difficultySettings easy) ''ArrowUp'' example_board 0
       = Some (\<lparr>birdPosition = \<lparr>x = 10, y = 9\<rparr>,
                seeds = [\<lparr>id_seed = 1, position = \<lparr>x = 3, y = 4\<rparr>, type_seed = Hard\<rparr>,
                         \<lparr>id_seed = 2, position = \<lparr>x = 11, y = 10\<rparr>, type_seed = Coin\<rparr>,
                         \<lparr>id_seed = 3, position = \<lparr>x = 0, y = 0\<rparr>, type_seed = Hard\<rparr>],
                seedIdCounter = 4\<rparr>, [onScore], 3)"
    using h by (simp add: handleKeyDown_def keySwitch_def example_board_def g
        getNewSeedType_def cycle_source_def)
  from k m l e board_inv_example fair_cycle show ?thesis by simp
qed

subsection \<open>Moving into a coin\<close>

lemma findIndex_type_update:
  assumes "k < length ss"
  shows "findIndex (\<lambda>seed. P (position seed)) (ss[k := (ss ! k)\<lparr>type_seed := t\<rparr>])
           = findIndex (\<lambda>seed. P (position seed)) ss"
proof (rule findIndex_map_cong)
  show "map (\<lambda>seed. P (position seed)) (ss[k := (ss ! k)\<lparr>type_seed := t\<rparr>])
      = map (\<lambda>seed. P (position seed)) ss"
    using assms by (intro nth_equalityI) (simp_all add: nth_list_update)
qed

lemma dispatch_coin:
  assumes "board w = Some b" "gameState (app w) = Playing"
    and "handleKeyDown N rnd (difficultySettings (difficulty (app w))) key b (rng w)
           = Some (b', [onCoinCollect], r')"
  shows "dispatch N rnd w (KeyDown key) =
     Some (\<lparr>app = (app w)\<lparr>coins := coins (app w) + 1, score := score (app w) + 1\<rparr>,
            board = Some b', rng = r', storage = storage w\<rparr>, [onCoinCollect])"
  using assms by (simp add: dispatch_def commit_def handleCoinCollect_def persistEffect_def)

lemma good_variant:
  assumes ks: "keySwitch N key (birdPosition b) = Some newPos"
    and fk: "findIndex (\<lambda>seed. x (position seed) = x newPos \<and> y (position seed) = y newPos)
           (seeds b) = Some k"
    and g: "getRandomPosition N rnd r
           (newPos # map position (take k (seeds b) @ drop (Suc k) (seeds b))) = Some (p, r1)"
  shows "handleKeyDown N rnd st key (b\<lparr>seeds := (seeds b)[k := (seeds b ! k)\<lparr>type_seed := Good\<rparr>]\<rparr>) r =
     Some (b\<lparr>birdPosition := newPos,
              seeds := (take k (seeds b) @ drop (Suc k) (seeds b))
                @ [\<lparr>id_seed = seedIdCounter b, position = p,
                    type_seed = getNewSeedType st (rnd r1)\<rparr>],
              seedIdCounter := seedIdCounter b + 1\<rparr>, [onScore], r1 + 1)"
proof -
  let ?bG = "b\<lparr>seeds := (seeds b)[k := (seeds b ! k)\<lparr>type_seed := Good\<rparr>]\<rparr>"
  from findIndex_Some[OF fk] have kl: "k < length (seeds b)" by simp
  have fG: "findIndex (\<lambda>seed. x (position seed) = x newPos \<and> y (position seed) = y newPos)
           (seeds ?bG) = Some k"
    using findIndex_type_update[OF kl, of "\<lambda>q. x q = x newPos \<and> y q = y newPos" Good] fk
    by simp
  have ksG: "keySwitch N key (birdPosition ?bG) = Some newPos" using ks by simp
  have tG: "type_seed (seeds ?bG ! k) \<noteq> Hard" using kl by simp
  have gG: "getRandomPosition N rnd r
      (newPos # map position (take k (seeds ?bG) @ drop (Suc k) (seeds ?bG))) = Some (p, r1)"
    using g by simp
  from collect_at[OF ksG fG tG gG, of st] kl show ?thesis by simp
qed

text \<open>
  C4. When the cell a move leads to holds a coin \<open>s\<close>, under the conditions of C3:
  \<^verbatim>\<open>handleKeyDown\<close> returns the board, and reads the draws, it returns when \<open>s\<close> is a good seed
  instead (same bird cell, same remaining seeds, same new seed, same counter), but calls
  \<^verbatim>\<open>onCoinCollect\<close> once in place of \<^verbatim>\<open>onScore\<close>. The controller's handler for that callback
  adds 1 to coins and 1 to score, and a key press on a mounted board of a game in play that ends
  with this callback leaves exactly that controller state.
\<close>

theorem coin_move:
  assumes "keySwitch N key (birdPosition b) = Some newPos"
    and "s \<in> set (seeds b)" and "position s = newPos" and "type_seed s = Coin"
    and "board_inv b"
    and "fair N rnd" and "0 < N" and "int (length (seeds b)) < N * N"
  shows "(\<exists>p t r' k.
       handleKeyDown N rnd st key b r =
         Some (\<lparr>birdPosition = position s,
                seeds = remove1 s (seeds b)
                  @ [\<lparr>id_seed = seedIdCounter b, position = p, type_seed = t\<rparr>],
                seedIdCounter = seedIdCounter b + 1\<rparr>, [onCoinCollect], r')
       \<and> k < length (seeds b) \<and> seeds b ! k = s
       \<and> handleKeyDown N rnd st key (b\<lparr>seeds := (seeds b)[k := s\<lparr>type_seed := Good\<rparr>]\<rparr>) r =
         Some (\<lparr>birdPosition = position s,
                seeds = remove1 s (seeds b)
                  @ [\<lparr>id_seed = seedIdCounter b, position = p, type_seed = t\<rparr>],
                seedIdCounter = seedIdCounter b + 1\<rparr>, [onScore], r')
       \<and> length (remove1 s (seeds b)
                  @ [\<lparr>id_seed = seedIdCounter b, position = p, type_seed = t\<rparr>])
           = length (seeds b)
       \<and> s \<notin> set (remove1 s (seeds b))
       \<and> p \<noteq> position s
       \<and> p \<notin> position ` set (remove1 s (seeds b))
       \<and> id_seed s \<notin> id_seed ` set (remove1 s (seeds b)
                  @ [\<lparr>id_seed = seedIdCounter b, position = p, type_seed = t\<rparr>]))
     \<and> callback onCoinCollect a = a\<lparr>coins := coins a + 1, score := score a + 1\<rparr>
     \<and> (\<forall>w b' r'. board w = Some b \<and> rng w = r \<and> gameState (app w) = Playing
            \<and> difficultySettings (difficulty (app w)) = st
            \<and> handleKeyDown N rnd st key b r = Some (b', [onCoinCollect], r') \<longrightarrow>
          dispatch N rnd w (KeyDown key) =
            Some (\<lparr>app = (app w)\<lparr>coins := coins (app w) + 1, score := score (app w) + 1\<rparr>,
                   board = Some b', rng = r', storage = storage w\<rparr>, [onCoinCollect]))"
proof (intro conjI)
  have nh: "type_seed s \<noteq> Hard" using assms(4) by simp
  from collect_move[OF assms(1,2,3) nh assms(5,6,7,8), where st = st and r = r]
  obtain k p r1 where
    k: "k < length (seeds b)" "seeds b ! k = s"
      "findIndex (\<lambda>seed. x (position seed) = x newPos \<and> y (position seed) = y newPos)
         (seeds b) = Some k"
      "take k (seeds b) @ drop (Suc k) (seeds b) = remove1 s (seeds b)"
    and g: "getRandomPosition N rnd r (newPos # map position (remove1 s (seeds b))) = Some (p, r1)"
    and c: "handleKeyDown N rnd st key b r =
         Some (b\<lparr>birdPosition := newPos,
                  seeds := remove1 s (seeds b)
                    @ [\<lparr>id_seed = seedIdCounter b, position = p,
                        type_seed = getNewSeedType st (rnd r1)\<rparr>],
                  seedIdCounter := seedIdCounter b + 1\<rparr>,
               [if type_seed s = Coin then onCoinCollect else onScore], r1 + 1)"
      "p \<noteq> newPos" "p \<notin> position ` set (remove1 s (seeds b))"
      "Suc (length (remove1 s (seeds b))) = length (seeds b)"
      "id_seed s \<notin> id_seed ` set (remove1 s (seeds b))"
      "id_seed s \<noteq> seedIdCounter b"
    by blast
  let ?t = "getNewSeedType st (rnd r1)"
  let ?B = "\<lparr>birdPosition = position s,
              seeds = remove1 s (seeds b)
                @ [\<lparr>id_seed = seedIdCounter b, position = p, type_seed = ?t\<rparr>],
              seedIdCounter = seedIdCounter b + 1\<rparr>"
  have eq: "b\<lparr>birdPosition := newPos,
                  seeds := remove1 s (seeds b)
                    @ [\<lparr>id_seed = seedIdCounter b, position = p, type_seed = ?t\<rparr>],
                  seedIdCounter := seedIdCounter b + 1\<rparr> = ?B"
    using assms(3) by simp
  have coin: "handleKeyDown N rnd st key b r = Some (?B, [onCoinCollect], r1 + 1)"
    using c(1) assms(4) unfolding eq by simp
  have g': "getRandomPosition N rnd r
      (newPos # map position (take k (seeds b) @ drop (Suc k) (seeds b))) = Some (p, r1)"
    using g unfolding k(4) .
  have good: "handleKeyDown N rnd st key (b\<lparr>seeds := (seeds b)[k := s\<lparr>type_seed := Good\<rparr>]\<rparr>) r
      = Some (?B, [onScore], r1 + 1)"
    using good_variant[OF assms(1) k(3) g', of st] unfolding k(2) k(4) eq .
  have len: "length (remove1 s (seeds b)
                @ [\<lparr>id_seed = seedIdCounter b, position = p, type_seed = ?t\<rparr>])
         = length (seeds b)"
    using c(4) by simp
  have gone: "s \<notin> set (remove1 s (seeds b))" using c(5) by blast
  have ids: "id_seed s \<notin> id_seed ` set (remove1 s (seeds b)
                @ [\<lparr>id_seed = seedIdCounter b, position = p, type_seed = ?t\<rparr>])"
    using c(5,6) by simp
  have p: "p \<noteq> position s" using c(2) assms(3) by simp
  show "\<exists>p t r' k.
       handleKeyDown N rnd st key b r =
         Some (\<lparr>birdPosition = position s,
                seeds = remove1 s (seeds b)
                  @ [\<lparr>id_seed = seedIdCounter b, position = p, type_seed = t\<rparr>],
                seedIdCounter = seedIdCounter b + 1\<rparr>, [onCoinCollect], r')
       \<and> k < length (seeds b) \<and> seeds b ! k = s
       \<and> handleKeyDown N rnd st key (b\<lparr>seeds := (seeds b)[k := s\<lparr>type_seed := Good\<rparr>]\<rparr>) r =
         Some (\<lparr>birdPosition = position s,
                seeds = remove1 s (seeds b)
                  @ [\<lparr>id_seed = seedIdCounter b, position = p, type_seed = t\<rparr>],
                seedIdCounter = seedIdCounter b + 1\<rparr>, [onScore], r')
       \<and> length (remove1 s (seeds b)
                  @ [\<lparr>id_seed = seedIdCounter b, position = p, type_seed = t\<rparr>])
           = length (seeds b)
       \<and> s \<notin> set (remove1 s (seeds b))
       \<and> p \<noteq> position s
       \<and> p \<notin> position ` set (remove1 s (seeds b))
       \<and> id_seed s \<notin> id_seed ` set (remove1 s (seeds b)
                  @ [\<lparr>id_seed = seedIdCounter b, position = p, type_seed = t\<rparr>])"
    using coin k(1,2) good len gone p c(3) ids
    by (intro exI[of _ p] exI[of _ ?t] exI[of _ "r1 + 1"] exI[of _ k] conjI)
next
  show "callback onCoinCollect a = a\<lparr>coins := coins a + 1, score := score a + 1\<rparr>"
    by (simp add: handleCoinCollect_def)
next
  show "\<forall>w b' r'. board w = Some b \<and> rng w = r \<and> gameState (app w) = Playing
            \<and> difficultySettings (difficulty (app w)) = st
            \<and> handleKeyDown N rnd st key b r = Some (b', [onCoinCollect], r') \<longrightarrow>
          dispatch N rnd w (KeyDown key) =
            Some (\<lparr>app = (app w)\<lparr>coins := coins (app w) + 1, score := score (app w) + 1\<rparr>,
                   board = Some b', rng = r', storage = storage w\<rparr>, [onCoinCollect])"
  proof (intro allI impI, elim conjE)
    fix w :: world and b' :: GameBoard and r' :: nat
    assume "board w = Some b" "rng w = r" "gameState (app w) = Playing"
      "difficultySettings (difficulty (app w)) = st"
      "handleKeyDown N rnd st key b r = Some (b', [onCoinCollect], r')"
    then show "dispatch N rnd w (KeyDown key) =
            Some (\<lparr>app = (app w)\<lparr>coins := coins (app w) + 1, score := score (app w) + 1\<rparr>,
                   board = Some b', rng = r', storage = storage w\<rparr>, [onCoinCollect])"
      by (intro dispatch_coin) simp_all
  qed
qed

theorem coin_move_witness:
  "keySwitch 20 ''ArrowRight'' (birdPosition example_board) = Some \<lparr>x = 11, y = 10\<rparr>
   \<and> \<lparr>id_seed = 2, position = \<lparr>x = 11, y = 10\<rparr>, type_seed = Coin\<rparr> \<in> set (seeds example_board)
   \<and> board_inv example_board \<and> fair 20 cycle_source
   \<and> int (length (seeds example_board)) < 20 * 20
   \<and> board example_world = Some example_board \<and> rng example_world = 0
   \<and> gameState (app example_world) = Playing
   \<and> difficultySettings (difficulty (app example_world)) = difficultySettings easy
   \<and> handleKeyDown 20 cycle_source (difficultySettings easy) ''ArrowRight'' example_board 0
       = Some (\<lparr>birdPosition = \<lparr>x = 11, y = 10\<rparr>,
                  seeds = [\<lparr>id_seed = 0, position = \<lparr>x = 10, y = 9\<rparr>, type_seed = Good\<rparr>,
                           \<lparr>id_seed = 1, position = \<lparr>x = 3, y = 4\<rparr>, type_seed = Hard\<rparr>,
                           \<lparr>id_seed = 3, position = \<lparr>x = 0, y = 0\<rparr>, type_seed = Hard\<rparr>],
                  seedIdCounter = 4\<rparr>, [onCoinCollect], 3)
   \<and> dispatch 20 cycle_source example_world (KeyDown ''ArrowRight'')
       = Some (\<lparr>app = \<lparr>gameState = Playing, score = 3, coins = 2, totalPoints = Fin 0,
                        difficulty = easy\<rparr>,
                board = Some \<lparr>birdPosition = \<lparr>x = 11, y = 10\<rparr>,
                  seeds = [\<lparr>id_seed = 0, position = \<lparr>x = 10, y = 9\<rparr>, type_seed = Good\<rparr>,
                           \<lparr>id_seed = 1, position = \<lparr>x = 3, y = 4\<rparr>, type_seed = Hard\<rparr>,
                           \<lparr>id_seed = 3, position = \<lparr>x = 0, y = 0\<rparr>, type_seed = Hard\<rparr>],
                  seedIdCounter = 4\<rparr>,
                rng = 3, storage = Some (units ''0'')\<rparr>, [onCoinCollect])"
proof -
  let ?s = "\<lparr>id_seed = 2, position = \<lparr>x = 11, y = 10\<rparr>, type_seed = Coin\<rparr>"
  let ?B = "\<lparr>birdPosition = \<lparr>x = 11, y = 10\<rparr>,
                  seeds = [\<lparr>id_seed = 0, position = \<lparr>x = 10, y = 9\<rparr>, type_seed = Good\<rparr>,
                           \<lparr>id_seed = 1, position = \<lparr>x = 3, y = 4\<rparr>, type_seed = Hard\<rparr>,
                           \<lparr>id_seed = 3, position = \<lparr>x = 0, y = 0\<rparr>, type_seed = Hard\<rparr>],
                  seedIdCounter = 4\<rparr>"
  have k: "keySwitch 20 ''ArrowRight'' (birdPosition example_board) = Some \<lparr>x = 11, y = 10\<rparr>"
    by (simp add: keySwitch_def example_board_def)
  have m: "?s \<in> set (seeds example_board)" by (simp add: example_board_def)
  have l: "int (length (seeds example_board)) < 20 * 20" by (simp add: example_board_def)
  have w: "board example_world = Some example_board" "rng example_world = 0"
    "gameState (app example_world) = Playing"
    "difficultySettings (difficulty (app example_world)) = difficultySettings easy"
    by (simp_all add: example_world_def)
  have g: "getRandomPosition 20 cycle_source 0
       [\<lparr>x = 11, y = 10\<rparr>, \<lparr>x = 10, y = 9\<rparr>, \<lparr>x = 3, y = 4\<rparr>] = Some (\<lparr>x = 0, y = 0\<rparr>, 2)"
    by (simp add: getRandomPosition.simps random_cell_cycle)
  have e: "handleKeyDown 20 cycle_source (difficultySettings easy) ''ArrowRight'' example_board 0
       = Some (?B, [onCoinCollect], 3)"
    by (simp add: handleKeyDown_def keySwitch_def example_board_def g
        getNewSeedType_def cycle_source_def)
  note T = coin_move[OF k m _ _ board_inv_example fair_cycle _ l,
      where st = "difficultySettings easy" and r = 0 and a = "app example_world"]
  have "\<forall>w b' r'. board w = Some example_board \<and> rng w = 0 \<and> gameState (app w) = Playing
            \<and> difficultySettings (difficulty (app w)) = difficultySettings easy
            \<and> handleKeyDown 20 cycle_source (difficultySettings easy) ''ArrowRight''
                 example_board 0 = Some (b', [onCoinCollect], r') \<longrightarrow>
          dispatch 20 cycle_source w (KeyDown ''ArrowRight'') =
            Some (\<lparr>app = (app w)\<lparr>coins := coins (app w) + 1, score := score (app w) + 1\<rparr>,
                   board = Some b', rng = r', storage = storage w\<rparr>, [onCoinCollect])"
    using T by simp
  with w e have "dispatch 20 cycle_source example_world (KeyDown ''ArrowRight'') =
            Some (\<lparr>app = (app example_world)\<lparr>coins := coins (app example_world) + 1,
                     score := score (app example_world) + 1\<rparr>,
                   board = Some ?B, rng = 3, storage = storage example_world\<rparr>, [onCoinCollect])"
    by blast
  then have d: "dispatch 20 cycle_source example_world (KeyDown ''ArrowRight'')
       = Some (\<lparr>app = \<lparr>gameState = Playing, score = 3, coins = 2, totalPoints = Fin 0,
                        difficulty = easy\<rparr>,
                board = Some ?B, rng = 3, storage = Some (units ''0'')\<rparr>, [onCoinCollect])"
    by (simp add: example_world_def)
  from k m board_inv_example fair_cycle l w e d show ?thesis
    by (intro conjI)
qed

subsection \<open>Numbers\<close>

lemma ilen_nonpos: "a \<le> 0 \<Longrightarrow> ilen b a = 0"
  by (subst ilen.simps) simp

lemma ilen_step: "0 < a \<Longrightarrow> 1 < b \<Longrightarrow> ilen b a = ilen b (a div b) + 1"
  by (subst ilen.simps) simp

lemma ilen_bounds:
  assumes "0 < a" "1 < b"
  shows "1 \<le> ilen b a \<and> b ^ nat (ilen b a - 1) \<le> a \<and> a < b ^ nat (ilen b a)"
  using assms
proof (induction b a rule: ilen.induct)
  case (1 b a)
  show ?case
  proof (cases "a < b")
    case True
    then have "a div b = 0" using "1.prems" by simp
    then have "ilen b a = 1"
      using "1.prems" by (simp add: ilen_step ilen_nonpos)
    with True "1.prems" show ?thesis by simp
  next
    case False
    then have pos: "0 < a div b" using "1.prems" by (simp add: pos_imp_zdiv_pos_iff)
    have step: "ilen b a = ilen b (a div b) + 1"
      using "1.prems" by (rule ilen_step)
    from "1.IH" "1.prems" pos have ih: "1 \<le> ilen b (a div b)"
      "b ^ nat (ilen b (a div b) - 1) \<le> a div b" "a div b < b ^ nat (ilen b (a div b))"
      by simp_all
    have dm: "b * (a div b) \<le> a \<and> a < b * (a div b) + b"
    proof -
      have "a = b * (a div b) + a mod b" by simp
      moreover have "0 \<le> a mod b" "a mod b < b" using "1.prems" by simp_all
      ultimately show ?thesis by linarith
    qed
    define l where "l = nat (ilen b (a div b) - 1)"
    have l: "nat (ilen b (a div b)) = Suc l" using ih(1) by (simp add: l_def)
    have lo: "b ^ Suc l \<le> a"
    proof -
      have "b * b ^ l \<le> b * (a div b)" using ih(2) "1.prems" by (simp add: l_def)
      also have "\<dots> \<le> a" using dm by simp
      finally show ?thesis by simp
    qed
    have hi: "a < b ^ Suc (Suc l)"
    proof -
      have "a div b + 1 \<le> b ^ Suc l" using ih(3) l by simp
      then have "b * (a div b + 1) \<le> b * b ^ Suc l" using "1.prems" by simp
      moreover have "a < b * (a div b + 1)"
        using dm by (simp add: algebra_simps)
      ultimately show ?thesis by simp
    qed
    from lo hi step l ih(1) show ?thesis by (simp add: nat_add_distrib)
  qed
qed

lemma round_half_even_of_int [simp]: "round_half_even (of_int i) = i"
  by (simp add: round_half_even_def)

lemma ilog2_of_int:
  assumes "0 < n"
  shows "ilog 2 (of_int n) = ilen 2 n - 1"
proof -
  from ilen_bounds[OF assms, of 2] have b: "1 \<le> ilen 2 n" "2 ^ nat (ilen 2 n - 1) \<le> n" by simp_all
  have one: "ilen 2 1 = 1" by (simp add: ilen_step ilen_nonpos)
  have "(of_int (2 ^ nat (ilen 2 n - 1)) :: rat) \<le> of_int n"
    using b(2) by (rule of_int_le_iff[THEN iffD2])
  then have "ipow 2 (ilen 2 n - 1) \<le> of_int n"
    using b(1) by (simp add: ipow_def)
  then show ?thesis by (simp add: ilog_def one)
qed

lemma ipow_neg_52:
  assumes "e \<le> 52"
  shows "ipow 2 (e - 52) = 1 / of_int (2 ^ nat (52 - e))"
proof (cases "e = 52")
  case True
  then show ?thesis by (simp add: ipow_def)
next
  case False
  with assms have "e - 52 < 0" by simp
  then show ?thesis by (simp add: ipow_def)
qed

lemma no_overflow:
  assumes "n \<le> 2 ^ 53"
  shows "\<not> ipow 2 1024 \<le> (of_int n :: rat)"
proof -
  have "(2::int) ^ 53 < 2 ^ 1024" by (rule power_strict_increasing) simp_all
  with assms have "n < 2 ^ 1024" by linarith
  then have "(of_int n :: rat) < of_int (2 ^ 1024)" by (rule of_int_less_iff[THEN iffD2])
  then show ?thesis by (simp add: ipow_def del: of_int_power of_int_numeral)
qed

lemma round64_nat:
  assumes "0 < n" "n \<le> 2 ^ 53"
  shows "round64 (of_int n) = Fin (of_int n)"
proof -
  define e where "e = ilen 2 n - 1"
  from ilen_bounds[OF assms(1), of 2] have b: "0 \<le> e" "2 ^ nat e \<le> n" "n < 2 ^ nat (e + 1)"
    by (simp_all add: e_def)
  have il: "ilog 2 \<bar>of_int n\<bar> = e"
    using assms(1) ilog2_of_int[OF assms(1)] by (simp add: e_def)
  have "(2::int) ^ nat e \<le> 2 ^ 53" using b(2) assms(2) by linarith
  then have "nat e \<le> 53" by (rule power_le_imp_le_exp[rotated]) simp
  with b(1) have e53: "e \<le> 53" by simp
  have mx: "max e (- 1022) = e" using b(1) by simp
  have nz: "(of_int n :: rat) \<noteq> 0" "\<not> (of_int n :: rat) < 0" using assms(1) by simp_all
  have m: "of_int (round_half_even (\<bar>of_int n\<bar> / ipow 2 (e - 52))) * ipow 2 (e - 52)
      = (of_int n :: rat)"
  proof (cases "e \<le> 52")
    case True
    define j where "j = (2::int) ^ nat (52 - e)"
    have jp: "0 < j" by (simp add: j_def)
    have u: "ipow 2 (e - 52) = 1 / of_int j" using ipow_neg_52[OF True] by (simp add: j_def)
    have "\<bar>of_int n :: rat\<bar> / (1 / of_int j) = of_int (n * j)" using assms(1) by simp
    then have "round_half_even (\<bar>of_int n\<bar> / ipow 2 (e - 52)) = n * j"
      unfolding u by (simp only: round_half_even_of_int)
    then show ?thesis unfolding u using jp by simp
  next
    case False
    with e53 have e: "e = 53" by simp
    with b(2) assms(2) have n: "n = 2 ^ 53" by simp
    have u: "ipow 2 (e - 52) = 2" by (simp add: e ipow_def)
    have "\<bar>of_int n :: rat\<bar> / 2 = of_int (2 ^ 52)" unfolding n by simp
    then have "round_half_even (\<bar>of_int n\<bar> / ipow 2 (e - 52)) = 2 ^ 52"
      unfolding u by (simp only: round_half_even_of_int)
    then show ?thesis unfolding u n by simp
  qed
  show ?thesis
    unfolding round64_def Let_def il mx m
    using nz no_overflow[OF assms(2)] by simp
qed

lemma round64_neg: "round64 (- q) = js_negate (round64 q)"
  by (simp add: round64_def Let_def)

lemma round64_int:
  assumes "\<bar>z\<bar> \<le> 2 ^ 53"
  shows "round64 (of_int z) = Fin (of_int z)"
proof -
  consider "z = 0" | "0 < z" | "z < 0" by linarith
  then show ?thesis
  proof cases
    case 1
    then show ?thesis by (simp add: round64_def)
  next
    case 2
    with assms show ?thesis by (intro round64_nat) simp_all
  next
    case 3
    with assms have "round64 (of_int (- z)) = Fin (of_int (- z))"
      by (intro round64_nat) simp_all
    then have "js_negate (round64 (of_int z)) = Fin (- of_int z)"
      by (simp add: round64_neg)
    then show ?thesis by (cases "round64 (of_int z)") simp_all
  qed
qed

lemma js_add_int:
  assumes "\<bar>a + b\<bar> \<le> 2 ^ 53"
  shows "js_add (Fin (of_int a)) (Fin (of_int b)) = Fin (of_int (a + b))"
  using round64_int[OF assms] by simp

text \<open>Sums of integers are exact up to \<open>2 ^ 53\<close>; the next integer is not a number.\<close>

lemma js_add_rounds: "js_add (Fin (2 ^ 53)) (Fin 1) = Fin (2 ^ 53)"
  by code_simp

lemma NumberToString_2: "NumberToString (Fin 2) = units ''2''"
  by code_simp

lemma NumberToString_5: "NumberToString (Fin 5) = units ''5''"
  by code_simp

lemma NumberToString_8: "NumberToString (Fin 8) = units ''8''"
  by code_simp

subsection \<open>Decimal numerals\<close>

lemma digit_unit:
  assumes "0 \<le> d" "d < 10"
  shows "of_char (''0123456789'' ! nat d) = 48 + d"
proof -
  from assms consider "d = 0" | "d = 1" | "d = 2" | "d = 3" | "d = 4" | "d = 5" | "d = 6"
    | "d = 7" | "d = 8" | "d = 9" by atomize_elim arith
  then show ?thesis by cases simp_all
qed

lemma units_digitsOf:
  assumes "0 \<le> n"
  shows "units (digitsOf n) \<noteq> []
       \<and> list_all (\<lambda>c. 48 \<le> c \<and> c \<le> 57) (units (digitsOf n))
       \<and> foldl (\<lambda>a c. 10 * a + (c - 48)) 0 (units (digitsOf n)) = n"
  using assms
proof (induction n rule: digitsOf.induct)
  case (1 n)
  show ?case
  proof (cases "n < 10")
    case True
    then have "units (digitsOf n) = [48 + n]"
      using "1.prems" by (subst digitsOf.simps) (simp add: units_def digit_unit)
    with True "1.prems" show ?thesis by simp
  next
    case False
    have m: "0 \<le> n mod 10" "n mod 10 < 10" by simp_all
    from False "1.prems" have d: "0 \<le> n div 10" by simp
    have u: "units (digitsOf n) = units (digitsOf (n div 10)) @ [48 + n mod 10]"
      using False by (subst digitsOf.simps) (simp add: units_def digit_unit[OF m])
    from "1.IH"[OF False d] m show ?thesis unfolding u by simp
  qed
qed

lemma decimal_digit:
  assumes "48 \<le> c \<and> c \<le> 57"
  shows "digitValue c = Some (c - 48)" "isDigit 10 c" "\<not> isStrWhiteSpaceChar c"
  using assms by (simp_all add: digitValue_def isDigit_def isStrWhiteSpaceChar_def)

lemma digitsMV_decimal:
  assumes "cs \<noteq> []" "list_all (\<lambda>c. 48 \<le> c \<and> c \<le> 57) cs"
  shows "digitsMV 10 cs = Some (foldl (\<lambda>a c. 10 * a + (c - 48)) 0 cs)"
proof -
  have a: "list_all (isDigit 10) cs"
    using assms(2) by (auto simp: list_all_iff decimal_digit)
  have "foldl (\<lambda>a c. 10 * a + (case digitValue c of None \<Rightarrow> 0 | Some d \<Rightarrow> d)) 0 cs
      = foldl (\<lambda>a c. 10 * a + (c - 48)) 0 cs"
    using assms(2) by (intro foldl_cong) (auto simp: list_all_iff decimal_digit)
  with a assms(1) show ?thesis by (simp add: digitsMV_def)
qed

lemma trimString_id:
  assumes "s \<noteq> []" "\<not> isStrWhiteSpaceChar (hd s)" "\<not> isStrWhiteSpaceChar (last s)"
  shows "trimString s = s"
proof -
  from assms(1,2) have a: "dropWhile isStrWhiteSpaceChar s = s" by (cases s) simp_all
  from assms(1,3) have "dropWhile isStrWhiteSpaceChar (rev s) = rev s"
    by (cases "rev s") (simp_all add: hd_rev[symmetric])
  with a show ?thesis by (simp add: trimString_def)
qed

lemma strUnsignedDecimalLiteral_digits:
  assumes "cs \<noteq> []" "list_all (\<lambda>c. 48 \<le> c \<and> c \<le> 57) cs"
    and "foldl (\<lambda>a c. 10 * a + (c - 48)) 0 cs = n"
  shows "strUnsignedDecimalLiteral cs = round64 (of_int n)"
proof -
  have a: "\<forall>c\<in>set cs. isDigit 10 c" using assms(2) by (auto simp: list_all_iff decimal_digit)
  then have t: "takeWhile (isDigit 10) cs = cs" "dropWhile (isDigit 10) cs = []"
    by simp_all
  from assms(1,2) have "48 \<le> hd cs \<and> hd cs \<le> 57" by (cases cs) simp_all
  then have i: "cs \<noteq> units ''Infinity''" by (auto simp: units_def)
  show ?thesis
    using i assms(1) digitsMV_decimal[OF assms(1,2)] assms(3)
    by (simp add: strUnsignedDecimalLiteral_def t exponentPart_def ipow_def)
qed

lemma nonDecimal_digits:
  assumes "list_all (\<lambda>c. 48 \<le> c \<and> c \<le> 57) cs"
  shows "nonDecimalIntegerLiteral cs = None"
  using assms by (auto simp: nonDecimalIntegerLiteral_def split: list.splits)

lemma StringToNumber_digits:
  assumes "cs \<noteq> []" "list_all (\<lambda>c. 48 \<le> c \<and> c \<le> 57) cs"
  shows "StringToNumber cs = round64 (of_int (foldl (\<lambda>a c. 10 * a + (c - 48)) 0 cs))"
    and "StringToNumber (45 # cs)
      = js_negate (round64 (of_int (foldl (\<lambda>a c. 10 * a + (c - 48)) 0 cs)))"
proof -
  from assms have h: "\<not> isStrWhiteSpaceChar (hd cs)" "\<not> isStrWhiteSpaceChar (last cs)"
    by (auto simp: list_all_iff decimal_digit)
  from assms(1) obtain c ds where c: "cs = c # ds" by (cases cs) auto
  with assms(2) have c1: "c \<noteq> 45" "c \<noteq> 43" by auto
  have v: "strUnsignedDecimalLiteral cs
      = round64 (of_int (foldl (\<lambda>a c. 10 * a + (c - 48)) 0 cs))"
    using assms by (intro strUnsignedDecimalLiteral_digits) simp_all
  have "trimString cs = cs" using assms(1) h by (rule trimString_id)
  then show "StringToNumber cs = round64 (of_int (foldl (\<lambda>a c. 10 * a + (c - 48)) 0 cs))"
    using nonDecimal_digits[OF assms(2)] v c c1 by (simp add: StringToNumber_def)
  have "\<not> isStrWhiteSpaceChar 45" by (simp add: isStrWhiteSpaceChar_def)
  with assms(1) h have "trimString (45 # cs) = 45 # cs" by (intro trimString_id) simp_all
  moreover have "nonDecimalIntegerLiteral (45 # cs) = None"
    by (simp add: nonDecimalIntegerLiteral_def split: list.splits)
  ultimately show "StringToNumber (45 # cs)
      = js_negate (round64 (of_int (foldl (\<lambda>a c. 10 * a + (c - 48)) 0 cs)))"
    using v by (simp add: StringToNumber_def)
qed

text \<open>The decimal numeral of a positive integer up to \<open>2 ^ 53\<close>, with or without a minus sign.\<close>

lemma StringToNumber_decimal:
  assumes "0 < n" "n \<le> 2 ^ 53"
  shows "StringToNumber (units (digitsOf n)) = Fin (of_int n)"
    and "StringToNumber (units (CHR ''-'' # digitsOf n)) = Fin (- of_int n)"
proof -
  let ?cs = "units (digitsOf n)"
  from units_digitsOf[of n] assms(1) have d: "?cs \<noteq> []"
    "list_all (\<lambda>c. 48 \<le> c \<and> c \<le> 57) ?cs"
    "foldl (\<lambda>a c. 10 * a + (c - 48)) 0 ?cs = n"
    by simp_all
  from assms have r: "round64 (of_int n) = Fin (of_int n)" by (intro round64_int) simp
  from StringToNumber_digits(1)[OF d(1,2)] d(3) r
  show "StringToNumber ?cs = Fin (of_int n)" by simp
  have m: "units (CHR ''-'' # digitsOf n) = 45 # ?cs" by (simp add: units_def)
  from StringToNumber_digits(2)[OF d(1,2)] d(3) r
  show "StringToNumber (units (CHR ''-'' # digitsOf n)) = Fin (- of_int n)"
    unfolding m by simp
qed

subsection \<open>The string of an integer\<close>

lemma ilog10_of_int:
  assumes "0 < n"
  shows "ilog 10 (of_int n) = ilen 10 n - 1"
proof -
  from ilen_bounds[OF assms, of 10] have b: "1 \<le> ilen 10 n" "10 ^ nat (ilen 10 n - 1) \<le> n"
    by simp_all
  have one: "ilen 10 1 = 1" by (simp add: ilen_step ilen_nonpos)
  have "(of_int (10 ^ nat (ilen 10 n - 1)) :: rat) \<le> of_int n"
    using b(2) by (rule of_int_le_iff[THEN iffD2])
  then have "ipow 10 (ilen 10 n - 1) \<le> of_int n"
    using b(1) by (simp add: ipow_def)
  then show ?thesis by (simp add: ilog_def one)
qed

lemma candidates_mem:
  assumes "(n, s) \<in> set (candidates v k)"
  shows "10 ^ (k - 1) \<le> s \<and> s < 10 ^ k
       \<and> round64 (of_int s * ipow 10 (n - int k)) = Fin v
       \<and> (n = ilog 10 v + 1 \<or> n = ilog 10 v + 2)"
  using assms by (auto simp: candidates_def split: if_splits)

lemma closest_mem: "closest v k c cs \<in> set (c # cs)"
  by (induction cs arbitrary: c) auto

lemma shortest_finds:
  assumes "candidates v k0 \<noteq> []" "k \<le> k0" "k0 < k + fuel"
  shows "\<exists>k' n s. shortest v fuel k = Some (k', n, s) \<and> k \<le> k' \<and> k' \<le> k0
           \<and> (n, s) \<in> set (candidates v k')"
  using assms
proof (induction fuel arbitrary: k)
  case 0
  then show ?case by simp
next
  case (Suc fuel)
  show ?case
  proof (cases "candidates v k")
    case Nil
    with Suc.prems have "k \<noteq> k0" by auto
    with Suc.prems have "Suc k \<le> k0" "k0 < Suc k + fuel" by simp_all
    from Suc.IH[OF Suc.prems(1) this] Nil show ?thesis by auto
  next
    case (Cons c cs)
    obtain n s where ns: "closest v k c cs = (n, s)" by (cases "closest v k c cs")
    from closest_mem[of v k c cs] ns Cons have "(n, s) \<in> set (candidates v k)" by simp
    with Cons ns Suc.prems(2) show ?thesis by simp
  qed
qed


lemma candidate_self:
  assumes "0 < z" "z \<le> 2 ^ 53"
  shows "(ilen 10 z, z) \<in> set (candidates (of_int z) (nat (ilen 10 z)))"
    and "1 \<le> nat (ilen 10 z)" and "nat (ilen 10 z) \<le> 16"
proof -
  define kd where "kd = nat (ilen 10 z)"
  from ilen_bounds[OF assms(1), of 10] have b: "1 \<le> ilen 10 z"
    "10 ^ nat (ilen 10 z - 1) \<le> z" "z < 10 ^ nat (ilen 10 z)"
    by simp_all
  from b(1) have kd: "int kd = ilen 10 z" "1 \<le> kd" "nat (ilen 10 z - 1) = kd - 1"
    by (simp_all add: kd_def)
  have "(2::int) ^ 53 < 10 ^ 16" by simp
  with b(2) assms(2) have "(10::int) ^ (kd - 1) < 10 ^ 16" unfolding kd(3) by linarith
  then have "kd - 1 < 16" by (rule power_less_imp_less_exp[rotated]) simp
  then show "nat (ilen 10 z) \<le> 16" unfolding kd_def by simp
  show "1 \<le> nat (ilen 10 z)" using b(1) by simp
  have il: "ilog 10 (of_int z) + 1 = ilen 10 z" using ilog10_of_int[OF assms(1)] by simp
  have r: "round64 (of_int z) = Fin (of_int z)" using assms by (intro round64_int) simp
  have p0: "ipow 10 0 = 1" by (simp add: ipow_def)
  have lo: "10 ^ (kd - 1) \<le> z" using b(2) unfolding kd(3) .
  have hi: "z < 10 ^ kd" using b(3) unfolding kd_def .
  show "(ilen 10 z, z) \<in> set (candidates (of_int z) (nat (ilen 10 z)))"
    unfolding kd_def[symmetric]
    using lo hi r by (simp add: candidates_def il kd(1) p0)
qed


lemma foldl_zeros:
  "foldl (\<lambda>a c. 10 * a + (c - 48)) a (replicate m 48) = (a::int) * 10 ^ m"
  by (induction m arbitrary: a) simp_all

text \<open>
  The string of a positive integer up to \<open>2 ^ 53\<close> is a run of decimal digits whose value
  rounds to that integer.
\<close>

lemma positiveToString_int:
  assumes "0 < z" "z \<le> 2 ^ 53"
  shows "\<exists>cs. units (positiveToString (of_int z)) = cs \<and> cs \<noteq> []
           \<and> list_all (\<lambda>c. 48 \<le> c \<and> c \<le> 57) cs
           \<and> round64 (of_int (foldl (\<lambda>a c. 10 * a + (c - 48)) 0 cs)) = Fin (of_int z)"
proof -
  define kd where "kd = nat (ilen 10 z)"
  note cs = candidate_self[OF assms]
  from cs(1) have ne: "candidates (of_int z) kd \<noteq> []" unfolding kd_def by auto
  have "1 \<le> kd" "kd < 1 + 17" using cs(2,3) unfolding kd_def by simp_all
  from shortest_finds[OF ne this] obtain k n s where
    sh: "shortest (of_int z) 17 1 = Some (k, n, s)" and k: "1 \<le> k" "k \<le> kd"
    and m: "(n, s) \<in> set (candidates (of_int z) k)"
    by blast
  from candidates_mem[OF m] have c: "10 ^ (k - 1) \<le> s" "s < 10 ^ k"
    "round64 (of_int s * ipow 10 (n - int k)) = Fin (of_int z)"
    "n = ilog 10 (of_int z) + 1 \<or> n = ilog 10 (of_int z) + 2"
    by simp_all
  have il: "ilog 10 (of_int z) + 1 = int kd"
    using ilog10_of_int[OF assms(1)] cs(2) unfolding kd_def by simp
  from c(4) il have n: "n = int kd \<or> n = int kd + 1" by auto
  with k cs(3) have nk: "int k \<le> n" "- 5 \<le> n" "n \<le> 21" unfolding kd_def by auto
  have "(0::int) < 10 ^ (k - 1)" by simp
  with c(1) have sp: "0 \<le> s" by linarith
  define e where "e = nat (n - int k)"
  have str: "positiveToString (of_int z) = digitsOf s @ replicate e CHR ''0''"
    using nk sh by (simp add: positiveToString_def formatDigits_def e_def)
  let ?cs = "units (digitsOf s) @ replicate e 48"
  have u: "units (positiveToString (of_int z)) = ?cs" unfolding str by (simp add: units_def)
  from units_digitsOf[OF sp] have d: "units (digitsOf s) \<noteq> []"
    "list_all (\<lambda>c. 48 \<le> c \<and> c \<le> 57) (units (digitsOf s))"
    "foldl (\<lambda>a c. 10 * a + (c - 48)) 0 (units (digitsOf s)) = s"
    by simp_all
  have f: "foldl (\<lambda>a c. 10 * a + (c - 48)) 0 ?cs = s * 10 ^ e"
    using d(3) by (simp add: foldl_zeros)
  have "ipow 10 (n - int k) = of_int (10 ^ e)" using nk(1) by (simp add: ipow_def e_def)
  with c(3) have "round64 (of_int (s * 10 ^ e)) = Fin (of_int z)" by simp
  with f have "round64 (of_int (foldl (\<lambda>a c. 10 * a + (c - 48)) 0 ?cs)) = Fin (of_int z)"
    by simp
  moreover have "?cs \<noteq> []" using d(1) by simp
  moreover have "list_all (\<lambda>c. 48 \<le> c \<and> c \<le> 57) ?cs" using d(2) by (auto simp: list_all_iff)
  ultimately show ?thesis using u by blast
qed

text \<open>The stored string of an integer total up to \<open>2 ^ 53\<close> in size reads back as that total.\<close>

lemma Number_String_int:
  assumes "\<bar>z\<bar> \<le> 2 ^ 53"
  shows "StringToNumber (NumberToString (Fin (of_int z))) = Fin (of_int z)"
proof -
  consider "z = 0" | "0 < z" | "z < 0" by linarith
  then show ?thesis
  proof cases
    case 1
    have "StringToNumber (units ''0'') = Fin 0" by code_simp
    with 1 show ?thesis by (simp add: NumberToString.simps)
  next
    case 2
    with assms positiveToString_int[of z] obtain cs where
      cs: "units (positiveToString (of_int z)) = cs" "cs \<noteq> []"
        "list_all (\<lambda>c. 48 \<le> c \<and> c \<le> 57) cs"
        "round64 (of_int (foldl (\<lambda>a c. 10 * a + (c - 48)) 0 cs)) = Fin (of_int z)"
      by auto
    from StringToNumber_digits(1)[OF cs(2,3)] cs(1,4) 2 show ?thesis
      by (simp add: NumberToString.simps)
  next
    case 3
    with assms positiveToString_int[of "- z"] obtain cs where
      cs: "units (positiveToString (of_int (- z))) = cs" "cs \<noteq> []"
        "list_all (\<lambda>c. 48 \<le> c \<and> c \<le> 57) cs"
        "round64 (of_int (foldl (\<lambda>a c. 10 * a + (c - 48)) 0 cs)) = Fin (of_int (- z))"
      by auto
    have "NumberToString (Fin (of_int z)) = 45 # cs"
      using 3 cs(1) by (simp add: NumberToString.simps units_def)
    with StringToNumber_digits(2)[OF cs(2,3)] cs(4) show ?thesis by simp
  qed
qed

subsection \<open>The session controller\<close>

text \<open>
  C9. \<^verbatim>\<open>handleSelectDifficulty\<close> sets the difficulty and the game state Ready and leaves total,
  score and coins as they were; it is what the difficulty buttons of the mode-selection screen
  call; the render that follows mounts no board, reads no draw and leaves the stored item alone.
\<close>

theorem select_difficulty_frame:
  "gameState (handleSelectDifficulty d a) = Ready
   \<and> difficulty (handleSelectDifficulty d a) = d
   \<and> totalPoints (handleSelectDifficulty d a) = totalPoints a
   \<and> score (handleSelectDifficulty d a) = score a
   \<and> coins (handleSelectDifficulty d a) = coins a
   \<and> click (ClickDifficulty d) (a\<lparr>gameState := ModeSelection\<rparr>) = handleSelectDifficulty d a
   \<and> commit N rnd w (handleSelectDifficulty d (app w)) (board w) (rng w)
       = Some \<lparr>app = handleSelectDifficulty d (app w), board = None, rng = rng w,
               storage = storage w\<rparr>"
  by (simp add: handleSelectDifficulty_def commit_def persistEffect_def)

text \<open>
  C10. The initial total is the number the host reads from the stored item, unless that number
  is \<open>NaN\<close> or zero, in which case it is 0; nothing else is changed, so a negative number is
  kept. An absent item, \<^verbatim>\<open>"abc"\<close> and \<^verbatim>\<open>"0"\<close> give 0; \<^verbatim>\<open>"-5"\<close> gives -5; \<^verbatim>\<open>"1e3"\<close>,
  \<^verbatim>\<open>"12.5"\<close>, \<^verbatim>\<open>"0x1F"\<close> and a no-break space before \<^verbatim>\<open>"7"\<close> give 1000, 12.5, 31 and 7;
  \<^verbatim>\<open>"9007199254740993"\<close> gives the nearest number, 9007199254740992; \<^verbatim>\<open>"-Infinity"\<close> gives
  the negative infinity. The decimal numeral of every positive integer up to \<open>2 ^ 53\<close> gives
  that integer, and with a minus sign in front its negative.
\<close>

theorem initial_total_points:
  "initialTotalPoints item
     = (if Number_item item = NaN \<or> Number_item item = Fin 0 then Fin 0 else Number_item item)
   \<and> totalPoints (initialApp item) = initialTotalPoints item
   \<and> initialTotalPoints None = Fin 0
   \<and> initialTotalPoints (Some (units ''abc'')) = Fin 0
   \<and> initialTotalPoints (Some (units ''0'')) = Fin 0
   \<and> initialTotalPoints (Some (units ''-5'')) = Fin (- 5)
   \<and> initialTotalPoints (Some (units ''1e3'')) = Fin 1000
   \<and> initialTotalPoints (Some (units ''12.5'')) = Fin (25 / 2)
   \<and> initialTotalPoints (Some (units ''0x1F'')) = Fin 31
   \<and> initialTotalPoints (Some (0xA0 # units ''7'')) = Fin 7
   \<and> initialTotalPoints (Some (units ''9007199254740993'')) = Fin 9007199254740992
   \<and> initialTotalPoints (Some (units ''-Infinity'')) = NegInf
   \<and> (0 < n \<and> n \<le> 2 ^ 53 \<longrightarrow>
        initialTotalPoints (Some (units (digitsOf n))) = Fin (of_int n)
        \<and> initialTotalPoints (Some (units (CHR ''-'' # digitsOf n))) = Fin (- of_int n))"
proof (intro conjI)
  show "initialTotalPoints item
     = (if Number_item item = NaN \<or> Number_item item = Fin 0 then Fin 0 else Number_item item)"
    by (cases "Number_item item") (simp_all add: initialTotalPoints_def)
  show "totalPoints (initialApp item) = initialTotalPoints item"
    by (simp add: initialApp_def)
  show "initialTotalPoints None = Fin 0" by (simp add: initialTotalPoints_def)
  show "initialTotalPoints (Some (units ''abc'')) = Fin 0" by code_simp
  show "initialTotalPoints (Some (units ''0'')) = Fin 0" by code_simp
  show "initialTotalPoints (Some (units ''-5'')) = Fin (- 5)" by code_simp
  show "initialTotalPoints (Some (units ''1e3'')) = Fin 1000" by code_simp
  show "initialTotalPoints (Some (units ''12.5'')) = Fin (25 / 2)" by code_simp
  show "initialTotalPoints (Some (units ''0x1F'')) = Fin 31" by code_simp
  show "initialTotalPoints (Some (0xA0 # units ''7'')) = Fin 7" by code_simp
  show "initialTotalPoints (Some (units ''9007199254740993'')) = Fin 9007199254740992"
    by code_simp
  show "initialTotalPoints (Some (units ''-Infinity'')) = NegInf" by code_simp
  show "0 < n \<and> n \<le> 2 ^ 53 \<longrightarrow>
        initialTotalPoints (Some (units (digitsOf n))) = Fin (of_int n)
        \<and> initialTotalPoints (Some (units (CHR ''-'' # digitsOf n))) = Fin (- of_int n)"
    using StringToNumber_decimal[of n] by (simp add: initialTotalPoints_def)
qed

theorem initial_total_points_witness:
  "0 < (5::int) \<and> (5::int) \<le> 2 ^ 53
   \<and> units (digitsOf 5) = units ''5''
   \<and> units (CHR ''-'' # digitsOf 5) = units ''-5''
   \<and> initialTotalPoints (Some (units ''5'')) = Fin 5
   \<and> initialTotalPoints (Some (units ''-5'')) = Fin (- 5)
   \<and> totalPoints (initialApp (Some (units ''-5''))) = Fin (- 5)
   \<and> (- 5 :: rat) < 0"
proof -
  have d: "digitsOf 5 = ''5''" by (subst digitsOf.simps) simp
  have b: "0 < (5::int) \<and> (5::int) \<le> 2 ^ 53" by simp
  note T = initial_total_points[of "Some (units ''-5'')" 5]
  from T b have g: "initialTotalPoints (Some (units (digitsOf 5))) = Fin (of_int 5)"
    "initialTotalPoints (Some (units (CHR ''-'' # digitsOf 5))) = Fin (- of_int 5)"
    by blast+
  from T have a: "totalPoints (initialApp (Some (units ''-5'')))
      = initialTotalPoints (Some (units ''-5''))"
    by blast
  from g have g': "initialTotalPoints (Some (units ''5'')) = Fin 5"
    "initialTotalPoints (Some (units ''-5'')) = Fin (- 5)"
    unfolding d by simp_all
  from a g'(2) have a': "totalPoints (initialApp (Some (units ''-5''))) = Fin (- 5)" by simp
  show ?thesis
  proof (intro conjI)
    show "0 < (5::int)" by simp
    show "(5::int) \<le> 2 ^ 53" by simp
    show "units (digitsOf 5) = units ''5''" unfolding d by (rule refl)
    show "units (CHR ''-'' # digitsOf 5) = units ''-5''" unfolding d by (rule refl)
    show "initialTotalPoints (Some (units ''5'')) = Fin 5" by (rule g'(1))
    show "initialTotalPoints (Some (units ''-5'')) = Fin (- 5)" by (rule g'(2))
    show "totalPoints (initialApp (Some (units ''-5''))) = Fin (- 5)" by (rule a')
    show "(- 5 :: rat) < 0" by simp
  qed
qed

lemma rerender_fold_score:
  assumes "onGameOver \<notin> set sigs"
  shows "fold (\<lambda>s. rerender (callback s)) sigs (a, item) = (fold callback sigs a, item)
         \<and> score (fold callback sigs a) = score a + int (length sigs)
         \<and> totalPoints (fold callback sigs a) = totalPoints a
         \<and> difficulty (fold callback sigs a) = difficulty a
         \<and> gameState (fold callback sigs a) = gameState a"
  using assms
proof (induction sigs arbitrary: a)
  case Nil
  then show ?case by simp
next
  case (Cons s sigs)
  then have "s = onScore \<or> s = onCoinCollect" by (cases s) auto
  then have step: "rerender (callback s) (a, item) = (callback s a, item)"
    "score (callback s a) = score a + 1" "totalPoints (callback s a) = totalPoints a"
    "difficulty (callback s a) = difficulty a" "gameState (callback s a) = gameState a"
    by (auto simp: rerender_def persistEffect_def handleScore_def handleCoinCollect_def)
  from Cons.prems have "onGameOver \<notin> set sigs" by simp
  from Cons.IH[OF this, of "callback s a"] step show ?case by simp
qed

text \<open>
  A session that starts with the stored item in step with the total ends in step, with the
  number of scoring callbacks added to the total.
\<close>

lemma session_total:
  assumes "onGameOver \<notin> set sigs" "item = Some (NumberToString (totalPoints a))"
  shows "gameState (fst (session sigs (a, item))) = GameOver
       \<and> totalPoints (fst (session sigs (a, item)))
           = js_add (totalPoints a) (Fin (of_int (int (length sigs))))
       \<and> score (fst (session sigs (a, item))) = int (length sigs)
       \<and> difficulty (fst (session sigs (a, item))) = difficulty a
       \<and> snd (session sigs (a, item))
           = Some (NumberToString (totalPoints (fst (session sigs (a, item)))))"
proof -
  have start: "rerender handleStartGame (a, item) = (handleStartGame a, item)"
    by (simp add: rerender_def persistEffect_def handleStartGame_def)
  note f = rerender_fold_score[OF assms(1), of "handleStartGame a" item]
  have mid: "fold (\<lambda>s. rerender (callback s)) sigs (rerender handleStartGame (a, item))
      = (fold callback sigs (handleStartGame a), item)"
    using f start by simp
  have sc: "score (fold callback sigs (handleStartGame a)) = int (length sigs)"
    and tp: "totalPoints (fold callback sigs (handleStartGame a)) = totalPoints a"
    and df: "difficulty (fold callback sigs (handleStartGame a)) = difficulty a"
    using f by (simp_all add: handleStartGame_def)
  show ?thesis
    unfolding session_def mid
    using sc tp df assms(2)
    by (simp add: rerender_def persistEffect_def handleGameOver_def)
qed

lemma commit_app:
  assumes "commit N rnd w a' b r = Some w'"
  shows "app w' = a'
       \<and> storage w' = persistEffect (totalPoints (app w)) (totalPoints a') (storage w)"
  using assms
  by (auto simp: commit_def Let_def split: if_splits option.splits)

lemma commit_storage:
  assumes "commit N rnd w a' b r = Some w'"
    and "storage w = Some (NumberToString (totalPoints (app w)))"
  shows "app w' = a' \<and> storage w' = Some (NumberToString (totalPoints a'))"
  using commit_app[OF assms(1)] assms(2) by (simp add: persistEffect_def)

text \<open>Every event keeps the stored item in step with the total.\<close>

lemma dispatch_storage:
  assumes "dispatch N rnd w e = Some (w', sigs)"
    and "storage w = Some (NumberToString (totalPoints (app w)))"
  shows "storage w' = Some (NumberToString (totalPoints (app w')))"
proof (cases e)
  case (KeyDown key)
  show ?thesis
  proof (cases "board w")
    case None
    with assms KeyDown show ?thesis by (simp add: dispatch_def)
  next
    case (Some b)
    with assms(1) KeyDown obtain b' r' where
      "commit N rnd w (fold callback sigs (app w)) (Some b') r' = Some w'"
      by (auto simp: dispatch_def split: option.splits)
    from commit_storage[OF this assms(2)] show ?thesis by simp
  qed
next
  case ClickStart
  with assms(1) have "commit N rnd w (click e (app w)) (board w) (rng w) = Some w'"
    by (auto simp: dispatch_def)
  from commit_storage[OF this assms(2)] show ?thesis by simp
next
  case ClickGameModes
  with assms(1) have "commit N rnd w (click e (app w)) (board w) (rng w) = Some w'"
    by (auto simp: dispatch_def)
  from commit_storage[OF this assms(2)] show ?thesis by simp
next
  case (ClickDifficulty d)
  with assms(1) have "commit N rnd w (click e (app w)) (board w) (rng w) = Some w'"
    by (auto simp: dispatch_def)
  from commit_storage[OF this assms(2)] show ?thesis by simp
next
  case ClickBack
  with assms(1) have "commit N rnd w (click e (app w)) (board w) (rng w) = Some w'"
    by (auto simp: dispatch_def)
  from commit_storage[OF this assms(2)] show ?thesis by simp
qed

lemma run_storage:
  assumes "run N rnd w es = Some (w', sigs)"
    and "storage w = Some (NumberToString (totalPoints (app w)))"
  shows "storage w' = Some (NumberToString (totalPoints (app w')))"
  using assms
proof (induction es arbitrary: w sigs)
  case Nil
  then show ?case by simp
next
  case (Cons e es)
  from Cons.prems(1) obtain w1 s1 s2 where
    d: "dispatch N rnd w e = Some (w1, s1)" and r: "run N rnd w1 es = Some (w', s2)"
    by (auto split: option.splits)
  from dispatch_storage[OF d Cons.prems(2)] Cons.IH[OF r] show ?case by simp
qed

text \<open>
  The mount effect stores the initial total, so in every world the application reaches the
  stored item is the string of the total.
\<close>

lemma reached_storage:
  assumes "run N rnd (initialWorld item) es = Some (w, sigs)"
  shows "storage w = Some (NumberToString (totalPoints (app w)))"
  by (rule run_storage[OF assms]) (simp add: initialWorld_def)

lemma dispatch_signals:
  assumes "dispatch N rnd w (KeyDown key) = Some (w', sigs)"
  shows "sigs = [] \<or> sigs = [onGameOver] \<or> sigs = [onScore] \<or> sigs = [onCoinCollect]"
proof (cases "board w")
  case None
  with assms show ?thesis by (simp add: dispatch_def)
next
  case (Some b)
  with assms obtain b' r' where
    h: "handleKeyDown N rnd (difficultySettings (difficulty (app w))) key b (rng w)
          = Some (b', sigs, r')"
    by (auto simp: dispatch_def split: option.splits)
  then show ?thesis by (cases rule: handleKeyDown_cases) (auto split: if_splits)
qed

text \<open>
  What a key press does to the controller and the stored item is what the handlers of the
  callbacks it calls do, each followed by its render.
\<close>

lemma dispatch_rerender:
  assumes "dispatch N rnd w (KeyDown key) = Some (w', sigs)"
  shows "(app w', storage w') = fold (\<lambda>s. rerender (callback s)) sigs (app w, storage w)"
proof (cases "board w")
  case None
  with assms show ?thesis by (auto simp: dispatch_def)
next
  case (Some b)
  with assms obtain b' r' where
    c: "commit N rnd w (fold callback sigs (app w)) (Some b') r' = Some w'"
    by (auto simp: dispatch_def split: option.splits)
  from dispatch_signals[OF assms] commit_app[OF c] show ?thesis
    by (auto simp: rerender_def persistEffect_def)
qed

lemma dispatch_game_over:
  assumes "dispatch N rnd w (KeyDown key) = Some (w', sigs)" and "onGameOver \<in> set sigs"
  shows "app w' = handleGameOver (app w)"
proof -
  from dispatch_signals[OF assms(1)] assms(2) have "sigs = [onGameOver]" by auto
  with dispatch_rerender[OF assms(1)] show ?thesis by (simp add: rerender_def)
qed

lemma hazard_world_dispatch:
  "dispatch 20 cycle_source hazard_world (KeyDown ''ArrowUp'') = Some (over_world, [onGameOver])"
proof -
  have "js_add (Fin 0) (Fin (of_int 2)) = Fin (of_int (0 + 2))"
    using js_add_int[of 0 2] by simp
  then have "js_add (Fin 0) (Fin 2) = Fin 2" by simp
  then show ?thesis
    by (simp add: dispatch_def hazard_world_def over_world_def hazard_board_def
        handleKeyDown_def keySwitch_def commit_def handleGameOver_def persistEffect_def
        NumberToString_2)
qed

lemma run_without_board:
  assumes "board w = None"
  shows "run N rnd w (map KeyDown keys) = Some (w, [])"
  using assms by (induction keys) (simp_all add: dispatch_def)

lemma run_append:
  "run N rnd w (es1 @ es2)
     = (case run N rnd w es1 of
          None \<Rightarrow> None
        | Some (w1, s1) \<Rightarrow>
            (case run N rnd w1 es2 of
               None \<Rightarrow> None
             | Some (w2, s2) \<Rightarrow> Some (w2, s1 @ s2)))"
  by (induction es1 arbitrary: w) (auto split: option.splits)

text \<open>
  A key press in a game in play either ends the game, with the board unmounted, or leaves the
  game in play, with the board mounted.
\<close>

lemma dispatch_playing:
  assumes d: "dispatch N rnd w (KeyDown key) = Some (w', sigs)"
    and p: "gameState (app w) = Playing" and b: "board w \<noteq> None"
  shows "(sigs = [onGameOver] \<and> board w' = None)
       \<or> (onGameOver \<notin> set sigs \<and> gameState (app w') = Playing \<and> board w' \<noteq> None)"
proof -
  from b obtain b0 where b0: "board w = Some b0" by auto
  with d obtain b' r' where
    c: "commit N rnd w (fold callback sigs (app w)) (Some b') r' = Some w'"
    by (auto simp: dispatch_def split: option.splits)
  from dispatch_signals[OF d] show ?thesis
  proof (elim disjE)
    assume "sigs = []"
    with c p show ?thesis by (auto simp: commit_def)
  next
    assume "sigs = [onGameOver]"
    with c show ?thesis by (auto simp: commit_def handleGameOver_def)
  next
    assume "sigs = [onScore]"
    with c p show ?thesis by (auto simp: commit_def handleScore_def)
  next
    assume "sigs = [onCoinCollect]"
    with c p show ?thesis by (auto simp: commit_def handleCoinCollect_def)
  qed
qed

text \<open>
  Key presses in a game in play: the controller and the stored item go through the renders of
  the callbacks called, and nothing is called after \<^verbatim>\<open>onGameOver\<close>.
\<close>

lemma run_playing:
  assumes "run N rnd w (map KeyDown keys) = Some (w', sigs)"
    and "gameState (app w) = Playing" and "board w \<noteq> None"
  shows "(onGameOver \<notin> set sigs
          \<and> (app w', storage w') = fold (\<lambda>s. rerender (callback s)) sigs (app w, storage w))
       \<or> (\<exists>s. sigs = s @ [onGameOver] \<and> onGameOver \<notin> set s
            \<and> (app w', storage w')
                = rerender handleGameOver
                    (fold (\<lambda>s. rerender (callback s)) s (app w, storage w)))"
  using assms
proof (induction keys arbitrary: w sigs)
  case Nil
  then show ?case by simp
next
  case (Cons key keys)
  from Cons.prems(1) obtain w1 s1 s2 where
    d: "dispatch N rnd w (KeyDown key) = Some (w1, s1)"
    and r: "run N rnd w1 (map KeyDown keys) = Some (w', s2)"
    and sg: "sigs = s1 @ s2"
    by (auto split: option.splits)
  note rr = dispatch_rerender[OF d]
  from dispatch_playing[OF d Cons.prems(2,3)] show ?case
  proof
    assume o: "s1 = [onGameOver] \<and> board w1 = None"
    then have "run N rnd w1 (map KeyDown keys) = Some (w1, [])" by (intro run_without_board) simp
    with r have e: "w' = w1" "s2 = []" by simp_all
    have "sigs = [] @ [onGameOver]" using sg o e by simp
    moreover have "(app w', storage w')
        = rerender handleGameOver (fold (\<lambda>s. rerender (callback s)) [] (app w, storage w))"
      using rr o e by simp
    ultimately show ?case by (intro disjI2 exI[of _ "[]"]) simp
  next
    assume n: "onGameOver \<notin> set s1 \<and> gameState (app w1) = Playing \<and> board w1 \<noteq> None"
    then have p1: "gameState (app w1) = Playing" and b1: "board w1 \<noteq> None" by simp_all
    from Cons.IH[OF r p1 b1] show ?case
    proof
      assume "onGameOver \<notin> set s2
          \<and> (app w', storage w') = fold (\<lambda>s. rerender (callback s)) s2 (app w1, storage w1)"
      with n rr sg show ?case by simp
    next
      assume "\<exists>s. s2 = s @ [onGameOver] \<and> onGameOver \<notin> set s
            \<and> (app w', storage w')
                = rerender handleGameOver
                    (fold (\<lambda>s. rerender (callback s)) s (app w1, storage w1))"
      then obtain s where s: "s2 = s @ [onGameOver]" "onGameOver \<notin> set s"
        "(app w', storage w')
           = rerender handleGameOver (fold (\<lambda>s. rerender (callback s)) s (app w1, storage w1))"
        by blast
      have "sigs = (s1 @ s) @ [onGameOver]" using sg s(1) by simp
      moreover have "onGameOver \<notin> set (s1 @ s)" using n s(2) by simp
      moreover have "(app w', storage w')
           = rerender handleGameOver
               (fold (\<lambda>s. rerender (callback s)) (s1 @ s) (app w, storage w))"
        using s(3) rr by simp
      ultimately show ?case by blast
    qed
  qed
qed

text \<open>Start Game on the ready screen and Play Again on the game-over screen.\<close>

lemma dispatch_start:
  assumes d: "dispatch N rnd w ClickStart = Some (w', sigs)"
    and g: "gameState (app w) = Ready \<or> gameState (app w) = GameOver"
  shows "sigs = [] \<and> (app w', storage w') = rerender handleStartGame (app w, storage w)
       \<and> gameState (app w') = Playing \<and> board w' \<noteq> None"
proof -
  from g have k: "click ClickStart (app w) = handleStartGame (app w)" by auto
  from d k have c: "commit N rnd w (handleStartGame (app w)) (board w) (rng w) = Some w'"
    and s: "sigs = []"
    by (auto simp: dispatch_def)
  from commit_app[OF c] have a: "(app w', storage w') = rerender handleStartGame (app w, storage w)"
    by (simp add: rerender_def)
  then have p: "gameState (app w') = Playing" by (simp add: rerender_def handleStartGame_def)
  from c have "board w' \<noteq> None"
    by (auto simp: commit_def handleStartGame_def Let_def split: option.splits if_splits)
  with s a p show ?thesis by simp
qed

text \<open>
  A game from its start to the key press that ends it: the controller and the stored item end
  as \<open>session\<close> gives them for the scoring callbacks called.
\<close>

lemma run_session:
  assumes r: "run N rnd w (ClickStart # map KeyDown keys) = Some (w', s @ [onGameOver])"
    and g: "gameState (app w) = Ready \<or> gameState (app w) = GameOver"
  shows "onGameOver \<notin> set s \<and> (app w', storage w') = session s (app w, storage w)"
proof -
  from r obtain w1 s1 s2 where
    d: "dispatch N rnd w ClickStart = Some (w1, s1)"
    and r2: "run N rnd w1 (map KeyDown keys) = Some (w', s2)"
    and sg: "s @ [onGameOver] = s1 @ s2"
    by (auto split: option.splits)
  from dispatch_start[OF d g] have st: "s1 = []"
    "(app w1, storage w1) = rerender handleStartGame (app w, storage w)"
    "gameState (app w1) = Playing" "board w1 \<noteq> None"
    by simp_all
  from sg st(1) have s2: "s2 = s @ [onGameOver]" by simp
  from run_playing[OF r2 st(3,4)] s2 obtain s' where
    s': "s @ [onGameOver] = s' @ [onGameOver]" "onGameOver \<notin> set s'"
      "(app w', storage w')
         = rerender handleGameOver (fold (\<lambda>s. rerender (callback s)) s' (app w1, storage w1))"
    by auto
  from s'(1) have "s' = s" by simp
  with s'(2,3) st(2) show ?thesis by (simp add: session_def)
qed

text \<open>
  A game played in a world the application reaches: it ends in game over with the number of
  scoring callbacks as the score, that number added to the total, and the new total stored.
\<close>

lemma world_session:
  assumes i: "run N rnd (initialWorld item) es = Some (w, sigs0)"
    and g: "gameState (app w) = Ready \<or> gameState (app w) = GameOver"
    and r: "run N rnd w (ClickStart # map KeyDown keys) = Some (w', s @ [onGameOver])"
  shows "gameState (app w') = GameOver
       \<and> score (app w') = int (length s)
       \<and> totalPoints (app w') = js_add (totalPoints (app w)) (Fin (of_int (int (length s))))
       \<and> storage w' = Some (NumberToString (totalPoints (app w')))
       \<and> difficulty (app w') = difficulty (app w)"
proof -
  from run_session[OF r g] have n: "onGameOver \<notin> set s"
    and e: "(app w', storage w') = session s (app w, storage w)" by simp_all
  from e have f: "app w' = fst (session s (app w, storage w))"
    "storage w' = snd (session s (app w, storage w))"
    by (simp_all add: prod_eq_iff)
  from session_total[OF n reached_storage[OF i]] show ?thesis unfolding f by simp
qed

lemma playing_world_run:
  "run 20 cycle_source (initialWorld None) (ClickStart # map KeyDown first_moves)
     = Some (playing_world, replicate 5 onScore)"
proof -
  have "run 20 cycle_source (initialWorld None) (ClickStart # map KeyDown first_moves) \<noteq> None"
    by code_simp
  moreover have "snd (the (run 20 cycle_source (initialWorld None)
      (ClickStart # map KeyDown first_moves))) = replicate 5 onScore"
    by code_simp
  ultimately show ?thesis by (auto simp: playing_world_def)
qed

lemma first_over_dispatch:
  "dispatch 20 cycle_source playing_world (KeyDown ''ArrowUp'') = Some (first_over, [onGameOver])"
proof -
  have "dispatch 20 cycle_source playing_world (KeyDown ''ArrowUp'') \<noteq> None"
    by code_simp
  moreover have "snd (the (dispatch 20 cycle_source playing_world (KeyDown ''ArrowUp'')))
      = [onGameOver]"
    by code_simp
  ultimately show ?thesis by (auto simp: first_over_def)
qed

lemma first_over_run:
  "run 20 cycle_source (initialWorld None) (ClickStart # map KeyDown (first_moves @ [''ArrowUp'']))
     = Some (first_over, replicate 5 onScore @ [onGameOver])"
proof -
  have "run 20 cycle_source (initialWorld None)
      ((ClickStart # map KeyDown first_moves) @ [KeyDown ''ArrowUp''])
     = Some (first_over, replicate 5 onScore @ [onGameOver])"
    unfolding run_append playing_world_run by (simp add: first_over_dispatch)
  then show ?thesis by simp
qed

lemma second_over_run:
  "run 20 cycle_source first_over (ClickStart # map KeyDown second_keys)
     = Some (second_over, [onScore, onScore, onCoinCollect] @ [onGameOver])"
proof -
  have "run 20 cycle_source first_over (ClickStart # map KeyDown second_keys) \<noteq> None"
    by code_simp
  moreover have "snd (the (run 20 cycle_source first_over
      (ClickStart # map KeyDown second_keys))) = [onScore, onScore, onCoinCollect] @ [onGameOver]"
    by code_simp
  ultimately show ?thesis by (auto simp: second_over_def)
qed

text \<open>
  C8. \<^verbatim>\<open>handleGameOver\<close> sets the game state to game over and adds the current score to the
  total with the host's addition of numbers, which gives the exact sum whenever the sum lies
  within \<open>2 ^ 53\<close> of zero. The mount effect stores the initial total and every render after a
  change stores the new one, so in every world the application reaches the stored item is the
  string of the total, and it reads back as the total when that is an integer within \<open>2 ^ 53\<close>
  of zero. In such a world, a key press during which the board calls
  \<^verbatim>\<open>onGameOver\<close> leaves the controller in the state \<^verbatim>\<open>handleGameOver\<close> gives and the stored
  item equal to the string of the new total; and a game from its start to the key press that
  ends it leaves game over, the number of scoring callbacks as the score, that number added to
  the total, the new total stored and the difficulty as it was. Two games in a row with 5 and 3
  scoring callbacks, from a world with total 0, leave totals 5 and then 8, with \<^verbatim>\<open>"5"\<close> and
  then \<^verbatim>\<open>"8"\<close> stored, which read back as 5 and 8.
\<close>

theorem game_over_total:
  "gameState (handleGameOver a) = GameOver
   \<and> totalPoints (handleGameOver a) = js_add (totalPoints a) (Fin (of_int (score a)))
   \<and> (totalPoints a = Fin (of_int t) \<and> \<bar>t + score a\<bar> \<le> 2 ^ 53 \<longrightarrow>
        totalPoints (handleGameOver a) = Fin (of_int (t + score a)))
   \<and> (run N rnd (initialWorld item) es = Some (w, sigs0) \<longrightarrow>
        storage w = Some (NumberToString (totalPoints (app w))))
   \<and> (run N rnd (initialWorld item) es = Some (w, sigs0)
        \<and> totalPoints (app w) = Fin (of_int z) \<and> \<bar>z\<bar> \<le> 2 ^ 53 \<longrightarrow>
        Number_item (storage w) = totalPoints (app w))
   \<and> (run N rnd (initialWorld item) es = Some (w, sigs0)
        \<and> dispatch N rnd w (KeyDown key) = Some (w', sigs) \<and> onGameOver \<in> set sigs \<longrightarrow>
        app w' = handleGameOver (app w)
        \<and> storage w' = Some (NumberToString (totalPoints (app w'))))
   \<and> (run N rnd (initialWorld item) es0 = Some (w0, sigs1)
        \<and> (gameState (app w0) = Ready \<or> gameState (app w0) = GameOver)
        \<and> run N rnd w0 (ClickStart # map KeyDown keys1) = Some (w1, s1 @ [onGameOver]) \<longrightarrow>
        gameState (app w1) = GameOver
        \<and> score (app w1) = int (length s1)
        \<and> totalPoints (app w1) = js_add (totalPoints (app w0)) (Fin (of_int (int (length s1))))
        \<and> storage w1 = Some (NumberToString (totalPoints (app w1)))
        \<and> difficulty (app w1) = difficulty (app w0))
   \<and> (run N rnd (initialWorld item) es0 = Some (w0, sigs1)
        \<and> (gameState (app w0) = Ready \<or> gameState (app w0) = GameOver)
        \<and> totalPoints (app w0) = Fin 0
        \<and> run N rnd w0 (ClickStart # map KeyDown keys1) = Some (w1, s1 @ [onGameOver])
        \<and> length s1 = 5
        \<and> run N rnd w1 (ClickStart # map KeyDown keys2) = Some (w2, s2 @ [onGameOver])
        \<and> length s2 = 3 \<longrightarrow>
        totalPoints (app w1) = Fin 5 \<and> storage w1 = Some (units ''5'')
        \<and> Number_item (storage w1) = Fin 5
        \<and> totalPoints (app w2) = Fin 8 \<and> storage w2 = Some (units ''8'')
        \<and> Number_item (storage w2) = Fin 8
        \<and> gameState (app w2) = GameOver
        \<and> difficulty (app w2) = difficulty (app w0))"
proof -
  have g: "gameState (handleGameOver a) = GameOver"
    "totalPoints (handleGameOver a) = js_add (totalPoints a) (Fin (of_int (score a)))"
    by (simp_all add: handleGameOver_def)
  have x: "totalPoints (handleGameOver a) = Fin (of_int (t + score a))"
    if "totalPoints a = Fin (of_int t) \<and> \<bar>t + score a\<bar> \<le> 2 ^ 53"
    using that js_add_int[of t "score a"] by (simp add: handleGameOver_def)
  have i: "storage w = Some (NumberToString (totalPoints (app w)))"
    if "run N rnd (initialWorld item) es = Some (w, sigs0)"
    using that by (rule reached_storage)
  have rb: "Number_item (storage w) = totalPoints (app w)"
    if "run N rnd (initialWorld item) es = Some (w, sigs0)
        \<and> totalPoints (app w) = Fin (of_int z) \<and> \<bar>z\<bar> \<le> 2 ^ 53"
    using that i Number_String_int[of z] by simp
  have d: "app w' = handleGameOver (app w)
       \<and> storage w' = Some (NumberToString (totalPoints (app w')))"
    if "run N rnd (initialWorld item) es = Some (w, sigs0)
        \<and> dispatch N rnd w (KeyDown key) = Some (w', sigs) \<and> onGameOver \<in> set sigs"
    using that dispatch_game_over[of N rnd w key w' sigs]
      dispatch_storage[of N rnd w "KeyDown key" w' sigs] i by blast
  have one: "gameState (app w1) = GameOver
        \<and> score (app w1) = int (length s1)
        \<and> totalPoints (app w1) = js_add (totalPoints (app w0)) (Fin (of_int (int (length s1))))
        \<and> storage w1 = Some (NumberToString (totalPoints (app w1)))
        \<and> difficulty (app w1) = difficulty (app w0)"
    if "run N rnd (initialWorld item) es0 = Some (w0, sigs1)
        \<and> (gameState (app w0) = Ready \<or> gameState (app w0) = GameOver)
        \<and> run N rnd w0 (ClickStart # map KeyDown keys1) = Some (w1, s1 @ [onGameOver])"
  proof -
    from that have r0: "run N rnd (initialWorld item) es0 = Some (w0, sigs1)"
      and g0: "gameState (app w0) = Ready \<or> gameState (app w0) = GameOver"
      and r1: "run N rnd w0 (ClickStart # map KeyDown keys1) = Some (w1, s1 @ [onGameOver])"
      by blast+
    show ?thesis by (rule world_session[OF r0 g0 r1])
  qed
  have two: "totalPoints (app w1) = Fin 5 \<and> storage w1 = Some (units ''5'')
        \<and> Number_item (storage w1) = Fin 5
        \<and> totalPoints (app w2) = Fin 8 \<and> storage w2 = Some (units ''8'')
        \<and> Number_item (storage w2) = Fin 8
        \<and> gameState (app w2) = GameOver
        \<and> difficulty (app w2) = difficulty (app w0)"
    if h: "run N rnd (initialWorld item) es0 = Some (w0, sigs1)
        \<and> (gameState (app w0) = Ready \<or> gameState (app w0) = GameOver)
        \<and> totalPoints (app w0) = Fin 0
        \<and> run N rnd w0 (ClickStart # map KeyDown keys1) = Some (w1, s1 @ [onGameOver])
        \<and> length s1 = 5
        \<and> run N rnd w1 (ClickStart # map KeyDown keys2) = Some (w2, s2 @ [onGameOver])
        \<and> length s2 = 3"
  proof -
    from h have r0: "run N rnd (initialWorld item) es0 = Some (w0, sigs1)"
      and g0: "gameState (app w0) = Ready \<or> gameState (app w0) = GameOver"
      and r1: "run N rnd w0 (ClickStart # map KeyDown keys1) = Some (w1, s1 @ [onGameOver])"
      and r2: "run N rnd w1 (ClickStart # map KeyDown keys2) = Some (w2, s2 @ [onGameOver])"
      and l: "totalPoints (app w0) = Fin 0" "length s1 = 5" "length s2 = 3"
      by blast+
    have s5: "js_add (Fin 0) (Fin 5) = Fin 5" using js_add_int[of 0 5] by simp
    have s8: "js_add (Fin 5) (Fin 3) = Fin 8" using js_add_int[of 5 3] by simp
    from world_session[OF r0 g0 r1] l s5
    have a1: "gameState (app w1) = GameOver" "totalPoints (app w1) = Fin 5"
      "storage w1 = Some (NumberToString (Fin 5))" "difficulty (app w1) = difficulty (app w0)"
      by simp_all
    have r01: "run N rnd (initialWorld item) (es0 @ ClickStart # map KeyDown keys1)
        = Some (w1, sigs1 @ s1 @ [onGameOver])"
      by (simp only: run_append r0 r1 option.case prod.case append_assoc)
    from a1(1) have g1: "gameState (app w1) = Ready \<or> gameState (app w1) = GameOver" by simp
    from world_session[OF r01 g1 r2] l a1 s8
    have a2: "gameState (app w2) = GameOver" "totalPoints (app w2) = Fin 8"
      "storage w2 = Some (NumberToString (Fin 8))" "difficulty (app w2) = difficulty (app w0)"
      by simp_all
    have n5: "Number_item (Some (NumberToString (Fin 5))) = Fin 5"
      using Number_String_int[of 5] by simp
    have n8: "Number_item (Some (NumberToString (Fin 8))) = Fin 8"
      using Number_String_int[of 8] by simp
    from a1 a2 n5 n8 show ?thesis by (simp add: NumberToString_5 NumberToString_8)
  qed
  show ?thesis
  proof (intro conjI)
    show "gameState (handleGameOver a) = GameOver" by (rule g(1))
    show "totalPoints (handleGameOver a) = js_add (totalPoints a) (Fin (of_int (score a)))"
      by (rule g(2))
    show "totalPoints a = Fin (of_int t) \<and> \<bar>t + score a\<bar> \<le> 2 ^ 53 \<longrightarrow>
        totalPoints (handleGameOver a) = Fin (of_int (t + score a))"
      using x by blast
    show "run N rnd (initialWorld item) es = Some (w, sigs0) \<longrightarrow>
        storage w = Some (NumberToString (totalPoints (app w)))"
      using i by blast
    show "run N rnd (initialWorld item) es = Some (w, sigs0)
        \<and> totalPoints (app w) = Fin (of_int z) \<and> \<bar>z\<bar> \<le> 2 ^ 53 \<longrightarrow>
        Number_item (storage w) = totalPoints (app w)"
      using rb by blast
    show "run N rnd (initialWorld item) es = Some (w, sigs0)
        \<and> dispatch N rnd w (KeyDown key) = Some (w', sigs) \<and> onGameOver \<in> set sigs \<longrightarrow>
        app w' = handleGameOver (app w)
        \<and> storage w' = Some (NumberToString (totalPoints (app w')))"
      using d by blast
    show "run N rnd (initialWorld item) es0 = Some (w0, sigs1)
        \<and> (gameState (app w0) = Ready \<or> gameState (app w0) = GameOver)
        \<and> run N rnd w0 (ClickStart # map KeyDown keys1) = Some (w1, s1 @ [onGameOver]) \<longrightarrow>
        gameState (app w1) = GameOver
        \<and> score (app w1) = int (length s1)
        \<and> totalPoints (app w1) = js_add (totalPoints (app w0)) (Fin (of_int (int (length s1))))
        \<and> storage w1 = Some (NumberToString (totalPoints (app w1)))
        \<and> difficulty (app w1) = difficulty (app w0)"
      using one by blast
    show "run N rnd (initialWorld item) es0 = Some (w0, sigs1)
        \<and> (gameState (app w0) = Ready \<or> gameState (app w0) = GameOver)
        \<and> totalPoints (app w0) = Fin 0
        \<and> run N rnd w0 (ClickStart # map KeyDown keys1) = Some (w1, s1 @ [onGameOver])
        \<and> length s1 = 5
        \<and> run N rnd w1 (ClickStart # map KeyDown keys2) = Some (w2, s2 @ [onGameOver])
        \<and> length s2 = 3 \<longrightarrow>
        totalPoints (app w1) = Fin 5 \<and> storage w1 = Some (units ''5'')
        \<and> Number_item (storage w1) = Fin 5
        \<and> totalPoints (app w2) = Fin 8 \<and> storage w2 = Some (units ''8'')
        \<and> Number_item (storage w2) = Fin 8
        \<and> gameState (app w2) = GameOver
        \<and> difficulty (app w2) = difficulty (app w0)"
      using two by blast
  qed
qed

theorem game_over_total_witness:
  "run 20 cycle_source (initialWorld None) (ClickStart # map KeyDown first_moves)
     = Some (playing_world, replicate 5 onScore)
   \<and> dispatch 20 cycle_source playing_world (KeyDown ''ArrowUp'') = Some (first_over, [onGameOver])
   \<and> onGameOver \<in> set [onGameOver]
   \<and> totalPoints (app playing_world) = Fin (of_int 0)
   \<and> \<bar>0 + score (app playing_world)\<bar> \<le> 2 ^ 53
   \<and> score (app playing_world) = 5
   \<and> totalPoints (handleGameOver (app playing_world)) = Fin 5
   \<and> \<bar>0::int\<bar> \<le> 2 ^ 53
   \<and> Number_item (storage playing_world) = totalPoints (app playing_world)
   \<and> app first_over = handleGameOver (app playing_world)
   \<and> run 20 cycle_source (initialWorld None) [] = Some (initialWorld None, [])
   \<and> gameState (app (initialWorld None)) = Ready
   \<and> totalPoints (app (initialWorld None)) = Fin 0
   \<and> run 20 cycle_source (initialWorld None)
        (ClickStart # map KeyDown (first_moves @ [''ArrowUp'']))
       = Some (first_over, replicate 5 onScore @ [onGameOver])
   \<and> length (replicate 5 onScore) = 5
   \<and> run 20 cycle_source first_over (ClickStart # map KeyDown second_keys)
       = Some (second_over, [onScore, onScore, onCoinCollect] @ [onGameOver])
   \<and> length [onScore, onScore, onCoinCollect] = 3
   \<and> gameState (app first_over) = GameOver
   \<and> score (app first_over) = 5
   \<and> totalPoints (app first_over) = Fin 5
   \<and> storage first_over = Some (units ''5'')
   \<and> Number_item (storage first_over) = Fin 5
   \<and> totalPoints (app second_over) = Fin 8
   \<and> storage second_over = Some (units ''8'')
   \<and> Number_item (storage second_over) = Fin 8
   \<and> gameState (app second_over) = GameOver
   \<and> difficulty (app second_over) = normal"
proof -
  have i: "run 20 cycle_source (initialWorld None) [] = Some (initialWorld None, [])"
    "gameState (app (initialWorld None)) = Ready"
    "totalPoints (app (initialWorld None)) = Fin 0"
    "difficulty (app (initialWorld None)) = normal"
    by (simp_all add: initialWorld_def initialApp_def initialTotalPoints_def)
  note T = game_over_total[of "app playing_world" 0 20 cycle_source None
      "ClickStart # map KeyDown first_moves" playing_world "replicate 5 onScore" 0 "''ArrowUp''"
      first_over "[onGameOver]" "[]" "initialWorld None" "[]" "first_moves @ [''ArrowUp'']"
      first_over "replicate 5 onScore" second_keys second_over "[onScore, onScore, onCoinCollect]"]
  have p: "totalPoints (app playing_world) = Fin (of_int 0)" "score (app playing_world) = 5"
    by code_simp+
  then have q: "\<bar>0 + score (app playing_world)\<bar> \<le> 2 ^ 53" by simp
  have l: "onGameOver \<in> set [onGameOver]" "length (replicate 5 onScore) = 5"
    "length [onScore, onScore, onCoinCollect] = 3"
    by simp_all
  from T p(1) q have "totalPoints (handleGameOver (app playing_world))
      = Fin (of_int (0 + score (app playing_world)))" by blast
  with p(2) have x: "totalPoints (handleGameOver (app playing_world)) = Fin 5" by simp
  have z: "\<bar>0::int\<bar> \<le> 2 ^ 53" by simp
  from T playing_world_run p(1) z
  have rb: "Number_item (storage playing_world) = totalPoints (app playing_world)" by blast
  from T playing_world_run first_over_dispatch l(1)
  have a: "app first_over = handleGameOver (app playing_world)" by blast
  from T i(1,2) first_over_run
  have c: "gameState (app first_over) = GameOver"
    "score (app first_over) = int (length (replicate 5 onScore))"
    by blast+
  from T i(1,2,3) first_over_run second_over_run l(2,3)
  have b: "totalPoints (app first_over) = Fin 5" "storage first_over = Some (units ''5'')"
    "totalPoints (app second_over) = Fin 8" "storage second_over = Some (units ''8'')"
    "gameState (app second_over) = GameOver"
    "difficulty (app second_over) = difficulty (app (initialWorld None))"
    "Number_item (storage first_over) = Fin 5" "Number_item (storage second_over) = Fin 8"
    by blast+
  from c(2) have c': "score (app first_over) = 5" by simp
  from b(6) i(4) have b': "difficulty (app second_over) = normal" by simp
  show ?thesis
  proof (intro conjI)
    show "run 20 cycle_source (initialWorld None) (ClickStart # map KeyDown first_moves)
        = Some (playing_world, replicate 5 onScore)" by (rule playing_world_run)
    show "dispatch 20 cycle_source playing_world (KeyDown ''ArrowUp'')
        = Some (first_over, [onGameOver])" by (rule first_over_dispatch)
    show "onGameOver \<in> set [onGameOver]" by (rule l(1))
    show "totalPoints (app playing_world) = Fin (of_int 0)" by (rule p(1))
    show "\<bar>0 + score (app playing_world)\<bar> \<le> 2 ^ 53" by (rule q)
    show "score (app playing_world) = 5" by (rule p(2))
    show "totalPoints (handleGameOver (app playing_world)) = Fin 5" by (rule x)
    show "\<bar>0::int\<bar> \<le> 2 ^ 53" by (rule z)
    show "Number_item (storage playing_world) = totalPoints (app playing_world)" by (rule rb)
    show "app first_over = handleGameOver (app playing_world)" by (rule a)
    show "run 20 cycle_source (initialWorld None) [] = Some (initialWorld None, [])"
      by (rule i(1))
    show "gameState (app (initialWorld None)) = Ready" by (rule i(2))
    show "totalPoints (app (initialWorld None)) = Fin 0" by (rule i(3))
    show "run 20 cycle_source (initialWorld None)
        (ClickStart # map KeyDown (first_moves @ [''ArrowUp'']))
       = Some (first_over, replicate 5 onScore @ [onGameOver])" by (rule first_over_run)
    show "length (replicate 5 onScore) = 5" by (rule l(2))
    show "run 20 cycle_source first_over (ClickStart # map KeyDown second_keys)
       = Some (second_over, [onScore, onScore, onCoinCollect] @ [onGameOver])"
      by (rule second_over_run)
    show "length [onScore, onScore, onCoinCollect] = 3" by (rule l(3))
    show "gameState (app first_over) = GameOver" by (rule c(1))
    show "score (app first_over) = 5" by (rule c')
    show "totalPoints (app first_over) = Fin 5" by (rule b(1))
    show "storage first_over = Some (units ''5'')" by (rule b(2))
    show "Number_item (storage first_over) = Fin 5" by (rule b(7))
    show "totalPoints (app second_over) = Fin 8" by (rule b(3))
    show "storage second_over = Some (units ''8'')" by (rule b(4))
    show "Number_item (storage second_over) = Fin 8" by (rule b(8))
    show "gameState (app second_over) = GameOver" by (rule b(5))
    show "difficulty (app second_over) = normal" by (rule b')
  qed
qed

subsection \<open>After game over\<close>

text \<open>
  The board itself keeps no record of the game being over: were it still mounted, it would go
  on moving the bird.
\<close>

lemma board_not_terminal:
  "handleKeyDown 20 cycle_source (difficultySettings easy) ''ArrowUp'' hazard_board 0
     = Some (hazard_board, [onGameOver], 0)
   \<and> handleKeyDown 20 cycle_source (difficultySettings easy) ''ArrowLeft'' hazard_board 0
     = Some (hazard_board\<lparr>birdPosition := \<lparr>x = 9, y = 10\<rparr>\<rparr>, [], 0)"
  by (simp add: handleKeyDown_def keySwitch_def hazard_board_def)

text \<open>
  C7. A key press during which the board calls \<^verbatim>\<open>onGameOver\<close> calls it once and nothing
  else, and leaves the controller in game over with the board unmounted. From then on key
  presses change nothing and call nothing, whatever their number; the next board is the one
  \<^verbatim>\<open>resetGame\<close> builds when the game is started again.
\<close>

theorem game_over_terminal:
  assumes "dispatch N rnd w (KeyDown key) = Some (w', sigs)" and "onGameOver \<in> set sigs"
  shows "sigs = [onGameOver]
     \<and> gameState (app w') = GameOver
     \<and> board w' = None
     \<and> (\<forall>keys. run N rnd w' (map KeyDown keys) = Some (w', []))
     \<and> dispatch N rnd w' ClickStart =
         map_option (\<lambda>(b, r). (\<lparr>app = handleStartGame (app w'), board = Some b, rng = r,
                                  storage = storage w'\<rparr>, []))
           (resetGame N rnd (difficultySettings (difficulty (app w'))) (rng w'))"
proof -
  from assms obtain b where b: "board w = Some b"
    by (cases "board w") (auto simp: dispatch_def)
  with assms(1) obtain b' r' where
    h: "handleKeyDown N rnd (difficultySettings (difficulty (app w))) key b (rng w)
          = Some (b', sigs, r')"
    and c: "commit N rnd w (fold callback sigs (app w)) (Some b') r' = Some w'"
    by (auto simp: dispatch_def split: option.splits)
  from h assms(2) have sigs: "sigs = [onGameOver]"
    by (cases rule: handleKeyDown_cases) (auto split: if_splits)
  with c have w': "w' = \<lparr>app = handleGameOver (app w), board = None, rng = r',
      storage = persistEffect (totalPoints (app w)) (totalPoints (handleGameOver (app w)))
        (storage w)\<rparr>"
    by (simp add: commit_def handleGameOver_def)
  then have g: "gameState (app w') = GameOver" and n: "board w' = None"
    by (simp_all add: handleGameOver_def)
  have s: "dispatch N rnd w' ClickStart =
         map_option (\<lambda>(b, r). (\<lparr>app = handleStartGame (app w'), board = Some b, rng = r,
                                  storage = storage w'\<rparr>, []))
           (resetGame N rnd (difficultySettings (difficulty (app w'))) (rng w'))"
    using g n
    by (simp add: dispatch_def commit_def handleStartGame_def persistEffect_def
        option.map_comp comp_def split_def)
  from sigs g n s run_without_board[OF n] show ?thesis by blast
qed

theorem game_over_terminal_witness:
  "dispatch 20 cycle_source hazard_world (KeyDown ''ArrowUp'') = Some (over_world, [onGameOver])
   \<and> onGameOver \<in> set [onGameOver]
   \<and> gameState (app over_world) = GameOver
   \<and> board over_world = None
   \<and> run 20 cycle_source over_world (map KeyDown [''ArrowUp'', ''ArrowLeft'', ''ArrowDown''])
       = Some (over_world, [])"
proof -
  note d = hazard_world_dispatch
  from game_over_terminal[OF d] have t: "gameState (app over_world) = GameOver"
    "board over_world = None"
    "\<forall>keys. run 20 cycle_source over_world (map KeyDown keys) = Some (over_world, [])"
    by simp_all
  from t(3) have "run 20 cycle_source over_world
      (map KeyDown [''ArrowUp'', ''ArrowLeft'', ''ArrowDown'']) = Some (over_world, [])"
    by (rule spec)
  with d t(1,2) show ?thesis by (intro conjI) simp_all
qed

end
